theory Spec2Isabelle
  imports Main
begin

section \<open>The OHLCV price API (main.py): model\<close>

text \<open>
  The service has one source file, \<^verbatim>\<open>main.py\<close>: the symbol normaliser
  \<^verbatim>\<open>normalize_symbol_for_bucket\<close>, the decoder wrapper \<^verbatim>\<open>read_parquet_bytes\<close> and the
  two endpoints \<^verbatim>\<open>get_price\<close> (range query over listed partitions) and \<^verbatim>\<open>get_by_key\<close>
  (one object by key). The model below follows the file top to bottom. Strings are
  \<open>string\<close> (ASCII text: case mapping and whitespace are modelled on the ASCII range),
  Python integers are \<open>int\<close>, the clock (\<^verbatim>\<open>datetime.utcnow()\<close>) is an argument, the
  object store and the two libraries (pyarrow, pandas) are arguments collected in an
  environment record, every exception is a value, and every loop is a recursive function.
\<close>

subsection \<open>Python string operations used by the source\<close>

definition isspace :: "char \<Rightarrow> bool" where
  \<comment> \<open>\<^verbatim>\<open>str.isspace\<close> on ASCII: TAB, LF, VT, FF, CR, FS, GS, RS, US and the blank.\<close>
  "isspace c = (c \<in> set [CHR 0x09, CHR 0x0A, CHR 0x0B, CHR 0x0C, CHR 0x0D,
                           CHR 0x1C, CHR 0x1D, CHR 0x1E, CHR 0x1F, CHR '' ''])"

definition strip :: "string \<Rightarrow> string" where
  \<comment> \<open>\<^verbatim>\<open>s.strip()\<close>: leading and trailing whitespace removed.\<close>
  "strip s = rev (dropWhile isspace (rev (dropWhile isspace s)))"

definition upper_char :: "char \<Rightarrow> char" where
  "upper_char c =
     (case map_of (zip ''abcdefghijklmnopqrstuvwxyz'' ''ABCDEFGHIJKLMNOPQRSTUVWXYZ'') c of
        Some u \<Rightarrow> u | None \<Rightarrow> c)"

definition lower_char :: "char \<Rightarrow> char" where
  "lower_char c =
     (case map_of (zip ''ABCDEFGHIJKLMNOPQRSTUVWXYZ'' ''abcdefghijklmnopqrstuvwxyz'') c of
        Some l \<Rightarrow> l | None \<Rightarrow> c)"

definition upper :: "string \<Rightarrow> string" where
  "upper s = map upper_char s"

definition lower :: "string \<Rightarrow> string" where
  "lower s = map lower_char s"

definition startswith :: "string \<Rightarrow> string \<Rightarrow> bool" where
  "startswith s p = (take (length p) s = p)"

definition endswith :: "string \<Rightarrow> string \<Rightarrow> bool" where
  "endswith s p = (length p \<le> length s \<and> drop (length s - length p) s = p)"

fun split_on :: "char \<Rightarrow> string \<Rightarrow> string list" where
  \<comment> \<open>\<^verbatim>\<open>s.split(sep)\<close> for a one-character separator: always at least one field.\<close>
  "split_on sep [] = [[]]"
| "split_on sep (c # cs) =
     (if c = sep then [] # split_on sep cs
      else (case split_on sep cs of w # ws \<Rightarrow> (c # w) # ws | [] \<Rightarrow> [[c]]))"

definition is_digit :: "char \<Rightarrow> bool" where
  "is_digit c = (c \<in> set ''0123456789'')"

definition digit_val :: "char \<Rightarrow> nat" where
  "digit_val c = of_char c - 48"

definition digit_char :: "nat \<Rightarrow> char" where
  "digit_char n = ''0123456789'' ! n"

fun int_digits :: "bool \<Rightarrow> nat \<Rightarrow> string \<Rightarrow> nat option" where
  \<comment> \<open>The digit part of an integer literal: decimal digits, single underscores allowed
      between two digits only. The flag says that the previous character was a digit.\<close>
  "int_digits prev acc [] = (if prev then Some acc else None)"
| "int_digits prev acc (c # cs) =
     (if is_digit c then int_digits True (10 * acc + digit_val c) cs
      else if c = CHR ''_'' \<and> prev then int_digits False acc cs
      else None)"

definition int_isspace :: "char \<Rightarrow> bool" where
  \<comment> \<open>The whitespace \<^verbatim>\<open>int()\<close> skips around an ASCII literal: TAB, LF, VT, FF, CR and the
      blank. FS, GS, RS and US, which \<^verbatim>\<open>str.strip\<close> removes, are not among them.\<close>
  "int_isspace c = (c \<in> set [CHR 0x09, CHR 0x0A, CHR 0x0B, CHR 0x0C, CHR 0x0D, CHR '' ''])"

definition int_strip :: "string \<Rightarrow> string" where
  "int_strip s = rev (dropWhile int_isspace (rev (dropWhile int_isspace s)))"

definition int_max_str_digits :: nat where
  \<comment> \<open>CPython's default limit on the digits \<^verbatim>\<open>int()\<close> converts (a ValueError beyond it).\<close>
  "int_max_str_digits = 4300"

definition py_int :: "string \<Rightarrow> int option" where
  \<comment> \<open>\<^verbatim>\<open>int(s)\<close> in base 10; \<open>None\<close> is the ValueError. Surrounding whitespace (that of
      \<open>int_isspace\<close>) and one sign are accepted, as Python does.\<close>
  "py_int s =
     (let t = int_strip s;
          neg = (t \<noteq> [] \<and> hd t = CHR ''-'');
          body = (if t \<noteq> [] \<and> (hd t = CHR ''-'' \<or> hd t = CHR ''+'') then tl t else t)
      in if length (filter is_digit body) > int_max_str_digits then None
         else (case int_digits False 0 body of
                 None \<Rightarrow> None
               | Some n \<Rightarrow> Some (if neg then - int n else int n)))"

fun dec :: "nat \<Rightarrow> string" where
  \<comment> \<open>\<^verbatim>\<open>str(n)\<close> for a natural number.\<close>
  "dec n = (if n < 10 then [digit_char n] else dec (n div 10) @ [digit_char (n mod 10)])"

declare dec.simps [simp del]

definition str_int :: "int \<Rightarrow> string" where
  \<comment> \<open>The format field \<^verbatim>\<open>{Y}\<close> of an integer.\<close>
  "str_int i = (if i < 0 then CHR ''-'' # dec (nat (- i)) else dec (nat i))"

definition fmt_02d :: "int \<Rightarrow> string" where
  \<comment> \<open>The format field \<^verbatim>\<open>{m:02d}\<close>: zero-padded to width two, the sign counted.\<close>
  "fmt_02d i =
     (if i < 0 then CHR ''-'' # dec (nat (- i))
      else (let ds = dec (nat i) in replicate (2 - length ds) CHR ''0'' @ ds))"

subsection \<open>normalize_symbol_for_bucket (lines 25-31)\<close>

definition normalize_symbol_for_bucket :: "string \<Rightarrow> string \<Rightarrow> string" where
  "normalize_symbol_for_bucket sym' exchange =
     (let s = upper (strip sym') in
      if startswith s (exchange @ ''_'') then s
      else (let s' = (if \<not> endswith s ''-EQ'' then s @ ''-EQ'' else s)
            in exchange @ ''_'' @ s'))"

subsection \<open>Exceptions\<close>

datatype s3_error = NoSuchKey | ClientError

datatype pyexc = IndexError | OverflowError | TypeError | ArrowInvalid | S3Error s3_error

datatype failure =
    HTTPException nat string   \<comment> \<open>raised by the endpoint: status code and detail\<close>
  | Unhandled pyexc            \<comment> \<open>an exception no handler of the source catches\<close>

subsection \<open>datetime, timedelta and date\<close>

text \<open>
  A \<^verbatim>\<open>datetime\<close> is its proleptic Gregorian day number (\<^verbatim>\<open>toordinal()\<close>, day 1 is
  0001-01-01) and the microseconds since midnight. Python's dates run from day 1 to
  day 3652059 (9999-12-31); arithmetic leaving that range raises OverflowError, as does
  a \<^verbatim>\<open>timedelta\<close> of more than 999999999 days.
\<close>

record datetime =
  ordinal :: int
  micros :: int

definition MINORDINAL :: int where "MINORDINAL = 1"
definition MAXORDINAL :: int where "MAXORDINAL = 3652059"

definition timedelta_days :: "int \<Rightarrow> failure + int" where
  \<comment> \<open>\<^verbatim>\<open>timedelta(days=k)\<close>\<close>
  "timedelta_days k = (if \<bar>k\<bar> > 999999999 then Inl (Unhandled OverflowError) else Inr k)"

definition datetime_sub :: "datetime \<Rightarrow> int \<Rightarrow> failure + datetime" where
  \<comment> \<open>\<^verbatim>\<open>now - timedelta(days=k)\<close>\<close>
  "datetime_sub t k =
     (case timedelta_days k of
        Inl e \<Rightarrow> Inl e
      | Inr d \<Rightarrow>
          (let n = ordinal t - d in
           if n < MINORDINAL \<or> MAXORDINAL < n then Inl (Unhandled OverflowError)
           else Inr (t\<lparr>ordinal := n\<rparr>)))"

definition days_before_month :: "int \<Rightarrow> int" where
  "days_before_month m = [0, 0, 31, 59, 90, 120, 151, 181, 212, 243, 273, 304, 334] ! nat m"

definition days_in_month :: "int \<Rightarrow> int" where
  "days_in_month m = [0, 31, 28, 31, 30, 31, 30, 31, 31, 30, 31, 30, 31] ! nat m"

definition ord2ymd :: "int \<Rightarrow> int \<times> int \<times> int" where
  \<comment> \<open>The standard library's conversion of a day number to (year, month, day), which
      \<^verbatim>\<open>d.year\<close>, \<^verbatim>\<open>d.month\<close> and \<^verbatim>\<open>d.day\<close> read.\<close>
  "ord2ymd n0 =
     (let n = n0 - 1;
          n400 = n div 146097; n = n mod 146097;
          n100 = n div 36524; n = n mod 36524;
          n4 = n div 1461; n = n mod 1461;
          n1 = n div 365; n = n mod 365;
          y = n400 * 400 + 1 + n100 * 100 + n4 * 4 + n1
      in if n1 = 4 \<or> n100 = 4 then (y - 1, 12, 31)
         else (let leapyear = (n1 = 3 \<and> (n4 \<noteq> 24 \<or> n100 = 3));
                   month = (n + 50) div 32;
                   preceding = days_before_month month + (if month > 2 \<and> leapyear then 1 else 0)
               in if preceding > n
                  then (let month' = month - 1;
                            preceding' = preceding
                              - (days_in_month month' + (if month' = 2 \<and> leapyear then 1 else 0))
                        in (y, month', n - preceding' + 1))
                  else (y, month, n - preceding + 1)))"

subsection \<open>get_price: the request tokens and the range (lines 43-63)\<close>

definition parse_params :: "string \<Rightarrow> failure + (string \<times> string \<times> string)" where
  \<comment> \<open>lines 43-46\<close>
  "parse_params params =
     (case map strip (split_on CHR '','' params) of
        [sym', timeframe, rng] \<Rightarrow> Inr (sym', timeframe, rng)
      | _ \<Rightarrow> Inl (HTTPException 400 ''Use symbol,timeframe,range (e.g. CIPLA,15m,1d)''))"

definition parse_range :: "datetime \<Rightarrow> string \<Rightarrow> failure + datetime" where
  \<comment> \<open>lines 51-63: the start instant; the end instant is \<open>now\<close> itself. \<^verbatim>\<open>rng[-1]\<close> of an
      empty string raises IndexError, outside the \<^verbatim>\<open>try\<close>.\<close>
  "parse_range now rng =
     (if rng = [] then Inl (Unhandled IndexError)
      else
        (let unit = lower_char (last rng) in
         case py_int (butlast rng) of
           None \<Rightarrow> Inl (HTTPException 400 ''Range malformed, use e.g. 1d,7d,3m,1y'')
         | Some val \<Rightarrow>
             if unit = CHR ''d'' then datetime_sub now val
             else if unit = CHR ''m'' then datetime_sub now (30 * val)
             else if unit = CHR ''y'' then datetime_sub now (365 * val)
             else Inl (HTTPException 400 ''Unknown range unit; use d/m/y'')))"

definition date_iter :: "datetime \<Rightarrow> datetime \<Rightarrow> int list" where
  \<comment> \<open>line 73: the days \<^verbatim>\<open>start.date() + timedelta(days=i)\<close>, as day numbers.\<close>
  "date_iter start now =
     map (\<lambda>i. ordinal start + int i) [0 ..< nat (ordinal now - ordinal start + 1)]"

subsection \<open>The collaborators: object store, parquet decoder, timestamp parser\<close>

text \<open>
  A data frame is its column names and its records; a record maps column names to cells.
  A cell is null, a decoded value (of any type \<open>'v\<close>), or, after \<^verbatim>\<open>pd.to_datetime\<close>, a
  timestamp (nanoseconds since the epoch, time-zone aware or naive) or \<^verbatim>\<open>NaT\<close>.
\<close>

datatype tzinfo = Naive | UTC

datatype 'v cell = Null | Raw 'v | Stamp tzinfo int | NaT

type_synonym 'v row = "(string \<times> 'v cell) list"

record 'v dataframe =
  columns :: "string list"
  records :: "'v row list"

text \<open>
  A listing is read page by page: every page is one \<^verbatim>\<open>list_objects_v2\<close> response, so a
  listing has at least one page, a later page is requested only when the loop asks for
  it, and any request may fail. A page may lack \<^verbatim>\<open>Contents\<close>.
\<close>

datatype pages =
    LastPage "string list option"
  | NextPage "string list option" pages
  | ListError s3_error

record 'v env =
  paginate :: "string \<Rightarrow> pages"                      \<comment> \<open>the bucket's listing under a prefix\<close>
  get_object :: "string \<Rightarrow> s3_error + string"         \<comment> \<open>the bytes stored under a key\<close>
  read_table :: "string \<Rightarrow> 'v dataframe option"       \<comment> \<open>pyarrow's decoder; \<open>None\<close>: it raises\<close>
  to_timestamp :: "'v \<Rightarrow> int option"                  \<comment> \<open>pandas' parser of one value\<close>
  datetime_convertible :: "'v cell list \<Rightarrow> bool"      \<comment> \<open>whether pandas can convert the column\<close>

definition read_parquet_bytes :: "'v env \<Rightarrow> string \<Rightarrow> pyexc + 'v dataframe" where
  \<comment> \<open>lines 20-23\<close>
  "read_parquet_bytes E b = (case read_table E b of None \<Rightarrow> Inl ArrowInvalid | Some df \<Rightarrow> Inr df)"

definition contents :: "string list option \<Rightarrow> string list" where
  \<comment> \<open>\<^verbatim>\<open>page.get("Contents", [])\<close>, each object by its key\<close>
  "contents page = (case page of None \<Rightarrow> [] | Some keys \<Rightarrow> keys)"

subsection \<open>get_price: the traversal (lines 71-106)\<close>

text \<open>
  The loop nest works on \<^verbatim>\<open>rows\<close> and \<^verbatim>\<open>files_read\<close>. The state also keeps what the
  loops do to the outside: the lines printed for skipped keys, and every request sent to
  the store, in order, each with the value \<^verbatim>\<open>files_read\<close> had when it was sent. An
  exception that leaves the loops is kept in \<open>raised\<close>; every loop stops on it.
  Lines 65-68 build the session and the client from the credentials; they send nothing
  to the store and are not modelled.
\<close>

datatype request = ListObjects string | GetObject string

record 'v state =
  rows :: "'v dataframe list"
  files_read :: int
  printed :: "(string \<times> pyexc) list"
  requests :: "(request \<times> int) list"
  raised :: "failure option"

definition sent :: "request \<Rightarrow> 'v state \<Rightarrow> 'v state" where
  "sent r st = st\<lparr>requests := requests st @ [(r, files_read st)]\<rparr>"

definition halted :: "int \<Rightarrow> 'v state \<Rightarrow> bool" where
  \<comment> \<open>the test \<^verbatim>\<open>files_read >= max_files\<close> after each loop, or an exception on its way out\<close>
  "halted max_files st = (raised st \<noteq> None \<or> files_read st \<ge> max_files)"

fun obj_loop :: "'v env \<Rightarrow> int \<Rightarrow> string list \<Rightarrow> 'v state \<Rightarrow> 'v state" where
  \<comment> \<open>lines 86-100\<close>
  "obj_loop E max_files [] st = st"
| "obj_loop E max_files (key # keys) st =
     (if \<not> endswith (lower key) ''.parquet'' then obj_loop E max_files keys st
      else if files_read st \<ge> max_files then st
      else
        (let st1 = sent (GetObject key) st in
         case get_object E key of
           Inl e \<Rightarrow> st1\<lparr>raised := Some (Unhandled (S3Error e))\<rparr>
         | Inr b \<Rightarrow>
             (case read_parquet_bytes E b of
                Inr df \<Rightarrow>
                  obj_loop E max_files keys
                    (st1\<lparr>rows := rows st1 @ [df], files_read := files_read st1 + 1\<rparr>)
              | Inl e \<Rightarrow>
                  obj_loop E max_files keys (st1\<lparr>printed := printed st1 @ [(key, e)]\<rparr>))))"

fun page_loop :: "'v env \<Rightarrow> int \<Rightarrow> string \<Rightarrow> pages \<Rightarrow> 'v state \<Rightarrow> 'v state" where
  \<comment> \<open>lines 85-102\<close>
  "page_loop E max_files prefix (ListError e) st =
     (sent (ListObjects prefix) st)\<lparr>raised := Some (Unhandled (S3Error e))\<rparr>"
| "page_loop E max_files prefix (LastPage page) st =
     obj_loop E max_files (contents page) (sent (ListObjects prefix) st)"
| "page_loop E max_files prefix (NextPage page rest) st =
     (let st' = obj_loop E max_files (contents page) (sent (ListObjects prefix) st)
      in if halted max_files st' then st' else page_loop E max_files prefix rest st')"

definition path_template :: "string \<Rightarrow> string \<Rightarrow> string \<Rightarrow> string \<Rightarrow> int \<times> int \<times> int \<Rightarrow> string" where
  \<comment> \<open>The partition path with the separator \<open>sep\<close> between each key and its value.\<close>
  "path_template sep timeframe exchange symbol ymd =
     (case ymd of (Y, m, d) \<Rightarrow>
        ''processed/timeframe'' @ sep @ timeframe @ ''/exchange'' @ sep @ exchange
        @ ''/symbol'' @ sep @ symbol @ ''/year'' @ sep @ str_int Y
        @ ''/month'' @ sep @ fmt_02d m @ ''/day'' @ sep @ fmt_02d d @ ''/'')"

definition template_unencoded :: "string \<Rightarrow> string \<Rightarrow> string \<Rightarrow> int \<times> int \<times> int \<Rightarrow> string" where
  \<comment> \<open>line 76, formatted as line 83 does\<close>
  "template_unencoded timeframe exchange symbol ymd =
     (case ymd of (Y, m, d) \<Rightarrow>
        ''processed/timeframe='' @ timeframe @ ''/exchange='' @ exchange @ ''/symbol='' @ symbol
        @ ''/year='' @ str_int Y @ ''/month='' @ fmt_02d m @ ''/day='' @ fmt_02d d @ ''/'')"

definition template_encoded :: "string \<Rightarrow> string \<Rightarrow> string \<Rightarrow> int \<times> int \<times> int \<Rightarrow> string" where
  \<comment> \<open>line 78, formatted as line 83 does\<close>
  "template_encoded timeframe exchange symbol ymd =
     (case ymd of (Y, m, d) \<Rightarrow>
        ''processed/timeframe%3D'' @ timeframe @ ''/exchange%3D'' @ exchange
        @ ''/symbol%3D'' @ symbol @ ''/year%3D'' @ str_int Y
        @ ''/month%3D'' @ fmt_02d m @ ''/day%3D'' @ fmt_02d d @ ''/'')"

definition prefixes_to_try :: "string \<Rightarrow> string \<Rightarrow> string \<Rightarrow> int \<Rightarrow> string list" where
  \<comment> \<open>lines 74-79 and 83: the prefixes of one day, in the order of the template list\<close>
  "prefixes_to_try timeframe exchange symbol day =
     map (\<lambda>pfx_t. pfx_t timeframe exchange symbol (ord2ymd day))
       [template_unencoded, template_encoded]"

fun prefix_loop :: "'v env \<Rightarrow> int \<Rightarrow> string list \<Rightarrow> 'v state \<Rightarrow> 'v state" where
  \<comment> \<open>lines 82-104\<close>
  "prefix_loop E max_files [] st = st"
| "prefix_loop E max_files (prefix # rest) st =
     (let st' = page_loop E max_files prefix (paginate E prefix) st
      in if halted max_files st' then st' else prefix_loop E max_files rest st')"

fun day_loop ::
  "'v env \<Rightarrow> int \<Rightarrow> string \<Rightarrow> string \<Rightarrow> string \<Rightarrow> int list \<Rightarrow> 'v state \<Rightarrow> 'v state" where
  \<comment> \<open>lines 81-106\<close>
  "day_loop E max_files timeframe exchange symbol [] st = st"
| "day_loop E max_files timeframe exchange symbol (d # days) st =
     (let st' = prefix_loop E max_files (prefixes_to_try timeframe exchange symbol d) st
      in if halted max_files st' then st'
         else day_loop E max_files timeframe exchange symbol days st')"

definition init_state :: "'v state" where
  \<comment> \<open>lines 71-72\<close>
  "init_state = \<lparr>rows = [], files_read = 0, printed = [], requests = [], raised = None\<rparr>"

subsection \<open>get_price: assembling and filtering the result (lines 108-121)\<close>

definition union_columns :: "string list list \<Rightarrow> string list" where
  \<comment> \<open>the columns of all frames, each once, in the order of first appearance\<close>
  "union_columns css = fold (\<lambda>c acc. if c \<in> set acc then acc else acc @ [c]) (concat css) []"

definition reindex :: "string list \<Rightarrow> 'v row \<Rightarrow> 'v row" where
  \<comment> \<open>a record on the columns \<open>cols\<close>: a column it lacks is null\<close>
  "reindex cols r = map (\<lambda>c. (c, case map_of r c of None \<Rightarrow> Null | Some x \<Rightarrow> x)) cols"

definition concat_frames :: "'v dataframe list \<Rightarrow> 'v dataframe" where
  \<comment> \<open>line 111: \<^verbatim>\<open>pd.concat(rows, ignore_index=True, sort=False)\<close>\<close>
  "concat_frames dfs =
     (let cols = union_columns (map columns dfs)
      in \<lparr>columns = cols, records = map (reindex cols) (concat (map records dfs))\<rparr>)"

text \<open>
  A datetime column carries one time zone for all its entries. \<^verbatim>\<open>pd.to_datetime\<close> with
  \<^verbatim>\<open>errors="coerce", utc=True\<close> makes a UTC-aware column in which every entry that does
  not parse is \<^verbatim>\<open>NaT\<close>; for a column whose type it cannot convert at all (a boolean
  column is one) it gives a naive column of \<^verbatim>\<open>NaT\<close> instead. Which columns can be
  converted is the library's matter and is read from the environment.
  \<^verbatim>\<open>pd.to_datetime\<close> of a naive \<^verbatim>\<open>datetime\<close> (as \<^verbatim>\<open>datetime.utcnow()\<close> and what is
  computed from it are) is a naive timestamp. pandas refuses to order an aware column
  against a naive timestamp: the comparison raises TypeError. Against \<^verbatim>\<open>NaT\<close> every
  comparison is false.
\<close>

record series =
  tz :: tzinfo
  stamps :: "int option list"

definition column :: "'v dataframe \<Rightarrow> string \<Rightarrow> 'v cell list" where
  "column df c = map (\<lambda>r. case map_of r c of None \<Rightarrow> Null | Some x \<Rightarrow> x) (records df)"

definition coerce :: "'v env \<Rightarrow> 'v cell \<Rightarrow> int option" where
  "coerce E x = (case x of Raw v \<Rightarrow> to_timestamp E v | Stamp z t \<Rightarrow> Some t | _ \<Rightarrow> None)"

definition to_datetime_utc :: "'v env \<Rightarrow> 'v cell list \<Rightarrow> series" where
  \<comment> \<open>\<^verbatim>\<open>pd.to_datetime(col, errors="coerce", utc=True)\<close>\<close>
  "to_datetime_utc E col =
     (if datetime_convertible E col then \<lparr>tz = UTC, stamps = map (coerce E) col\<rparr>
      else \<lparr>tz = Naive, stamps = map (\<lambda>x. None) col\<rparr>)"

definition tz_convert_None :: "series \<Rightarrow> pyexc + series" where
  \<comment> \<open>\<^verbatim>\<open>.dt.tz_convert(None)\<close>: the same instants, naive; a naive column cannot be
      converted and raises TypeError\<close>
  "tz_convert_None s = (if tz s = Naive then Inl TypeError else Inr (s\<lparr>tz := Naive\<rparr>))"

definition nanos :: "datetime \<Rightarrow> int" where
  \<comment> \<open>nanoseconds since 1970-01-01 (day 719163)\<close>
  "nanos t = ((ordinal t - 719163) * 86400000000 + micros t) * 1000"

definition to_datetime_scalar :: "datetime \<Rightarrow> tzinfo \<times> int" where
  \<comment> \<open>\<^verbatim>\<open>pd.to_datetime(start)\<close> of a naive \<^verbatim>\<open>datetime\<close>\<close>
  "to_datetime_scalar t = (Naive, nanos t)"

definition series_cmp ::
  "(int \<Rightarrow> int \<Rightarrow> bool) \<Rightarrow> series \<Rightarrow> tzinfo \<times> int \<Rightarrow> pyexc + bool list" where
  \<comment> \<open>\<^verbatim>\<open>col >= bound\<close>, \<^verbatim>\<open>col <= bound\<close>\<close>
  "series_cmp rel s bound =
     (if tz s \<noteq> fst bound then Inl TypeError
      else Inr (map (\<lambda>x. case x of None \<Rightarrow> False | Some t \<Rightarrow> rel t (snd bound)) (stamps s)))"

definition set_column :: "'v dataframe \<Rightarrow> string \<Rightarrow> series \<Rightarrow> 'v dataframe" where
  \<comment> \<open>\<^verbatim>\<open>df[cand] = col\<close>\<close>
  "set_column df c s =
     df\<lparr>records :=
          map (\<lambda>(r, x). map (\<lambda>(k, old). if k = c then (k, case x of None \<Rightarrow> NaT | Some t \<Rightarrow> Stamp (tz s) t)
                                         else (k, old)) r)
            (zip (records df) (stamps s))\<rparr>"

definition candidates :: "string list" where
  "candidates = [''timestamp'', ''ts'', ''time'', ''datetime'', ''date'']"

definition time_filter ::
  "'v env \<Rightarrow> datetime \<Rightarrow> datetime \<Rightarrow> string \<Rightarrow> 'v dataframe \<Rightarrow> pyexc + 'v dataframe" where
  \<comment> \<open>lines 115-116\<close>
  "time_filter E start now cand big =
     (let col = to_datetime_utc E (column big cand);
          big1 = set_column big cand col
      in case series_cmp (\<lambda>t b. t \<ge> b) col (to_datetime_scalar start) of
           Inl e \<Rightarrow> Inl e
         | Inr ge \<Rightarrow>
             (case series_cmp (\<lambda>t b. t \<le> b) col (to_datetime_scalar now) of
                Inl e \<Rightarrow> Inl e
              | Inr le \<Rightarrow>
                  Inr (big1\<lparr>records :=
                         map fst (filter (\<lambda>(r, keep). keep)
                                    (zip (records big1) (map (\<lambda>(a, b). a \<and> b) (zip ge le))))\<rparr>)))"

fun filter_loop ::
  "'v env \<Rightarrow> datetime \<Rightarrow> datetime \<Rightarrow> string list \<Rightarrow> 'v dataframe \<Rightarrow> pyexc + 'v dataframe" where
  \<comment> \<open>lines 113-117: the first candidate that is a column filters, and ends the loop\<close>
  "filter_loop E start now [] big = Inr big"
| "filter_loop E start now (cand # cands) big =
     (if cand \<in> set (columns big) then time_filter E start now cand big
      else filter_loop E start now cands big)"

record 'v response =
  resp_symbol :: string
  resp_symbol_partition :: string
  resp_timeframe :: string
  resp_range :: string
  rows_returned :: nat
  data :: "'v row list"

subsection \<open>get_price (lines 33-121)\<close>

definition get_price ::
  "'v env \<Rightarrow> datetime \<Rightarrow> string \<Rightarrow> string \<Rightarrow> int \<Rightarrow> (failure + 'v response) \<times> 'v state" where
  \<comment> \<open>The response or the failure, and the final state of the traversal (the initial
      state when the request fails before the loops).\<close>
  "get_price E now params exchange max_files =
     (case parse_params params of
        Inl e \<Rightarrow> (Inl e, init_state)
      | Inr (sym', timeframe, rng) \<Rightarrow>
          (let symbol_partition = normalize_symbol_for_bucket sym' exchange in
           case parse_range now rng of
             Inl e \<Rightarrow> (Inl e, init_state)
           | Inr start \<Rightarrow>
               (let st = day_loop E max_files timeframe exchange symbol_partition
                           (date_iter start now) init_state
                in case raised st of
                     Some e \<Rightarrow> (Inl e, st)
                   | None \<Rightarrow>
                       if rows st = []
                       then (Inl (HTTPException 404 ''No parquet files found for query.''), st)
                       else (case filter_loop E start now candidates (concat_frames (rows st)) of
                               Inl e \<Rightarrow> (Inl (Unhandled e), st)
                             | Inr big \<Rightarrow>
                                 (Inr \<lparr>resp_symbol = sym',
                                       resp_symbol_partition = symbol_partition,
                                       resp_timeframe = timeframe, resp_range = rng,
                                       rows_returned = length (records big),
                                       data = records big\<rparr>, st)))))"

subsection \<open>get_by_key (lines 123-142)\<close>

record 'v key_response =
  resp_key :: string
  resp_rows :: nat
  resp_data :: "'v row list"

fun naive_loop :: "'v env \<Rightarrow> string list \<Rightarrow> 'v dataframe \<Rightarrow> pyexc + 'v dataframe" where
  \<comment> \<open>lines 138-141\<close>
  "naive_loop E [] df = Inr df"
| "naive_loop E (cand # cands) df =
     (if cand \<in> set (columns df)
      then (case tz_convert_None (to_datetime_utc E (column df cand)) of
              Inl e \<Rightarrow> Inl e
            | Inr col \<Rightarrow> Inr (set_column df cand col))
      else naive_loop E cands df)"

definition get_by_key :: "'v env \<Rightarrow> string \<Rightarrow> failure + 'v key_response" where
  "get_by_key E key =
     (case get_object E key of
        Inl NoSuchKey \<Rightarrow> Inl (HTTPException 404 ''Key not found in bucket.'')
      | Inl ClientError \<Rightarrow> Inl (Unhandled (S3Error ClientError))
      | Inr b \<Rightarrow>
          (case read_parquet_bytes E b of
             Inl e \<Rightarrow> Inl (Unhandled e)
           | Inr df \<Rightarrow>
               (case naive_loop E candidates df of
                  Inl e \<Rightarrow> Inl (Unhandled e)
                | Inr df' \<Rightarrow>
                    Inr \<lparr>resp_key = key, resp_rows = length (records df'),
                         resp_data = records df'\<rparr>)))"

subsection \<open>The specification's words for the range token\<close>

text \<open>
  The specification describes a valid range token by the pattern \<^verbatim>\<open>^\d+[dmy]$\<close>, its
  magnitude as the number its digits write, and the days per unit as 1, 30 and 365.
  These definitions follow the specification, as does the last one, its "valid
  non-negative integer"; they are what the parser of the source is compared with.
\<close>

definition spec_range_token :: "string \<Rightarrow> bool" where
  "spec_range_token rng =
     (2 \<le> length rng \<and> list_all is_digit (butlast rng) \<and> last rng \<in> set ''dmy'')"

definition spec_magnitude :: "string \<Rightarrow> nat" where
  "spec_magnitude ds = foldl (\<lambda>a c. 10 * a + digit_val c) 0 ds"

definition spec_unit_days :: "char \<Rightarrow> int" where
  "spec_unit_days u = (if u = CHR ''d'' then 1 else if u = CHR ''m'' then 30 else 365)"

definition spec_non_negative_integer :: "string \<Rightarrow> bool" where
  \<comment> \<open>"a valid non-negative integer": one decimal digit or more, nothing else\<close>
  "spec_non_negative_integer s = (s \<noteq> [] \<and> list_all is_digit s)"

subsection \<open>Notions used in the statements about the traversal\<close>

definition parquet_keys :: "string list \<Rightarrow> string list" where
  \<comment> \<open>the keys of a page that pass the filter of line 88\<close>
  "parquet_keys keys = filter (\<lambda>key. endswith (lower key) ''.parquet'') keys"

definition decoded :: "'v env \<Rightarrow> string \<Rightarrow> 'v dataframe option" where
  \<comment> \<open>the table stored under a key, when the object is there and decodes\<close>
  "decoded E key = (case get_object E key of Inl e \<Rightarrow> None | Inr b \<Rightarrow> read_table E b)"

definition steady :: "'v state \<Rightarrow> 'v state \<Rightarrow> bool" where
  \<comment> \<open>what every run of a loop keeps: one row per counted file, requests only added,
      the counter never lowered, and no exception but the store's\<close>
  "steady st st' =
     (int (length (rows st')) - files_read st' = int (length (rows st)) - files_read st
      \<and> files_read st \<le> files_read st'
      \<and> take (length (requests st)) (requests st') = requests st
      \<and> (raised st' = raised st \<or> (\<exists>e. raised st' = Some (Unhandled (S3Error e)))))"

definition grows :: "int \<Rightarrow> 'v state \<Rightarrow> 'v state \<Rightarrow> bool" where
  \<comment> \<open>a run within the budget: the counter stays within it, and every request added was
      sent below it\<close>
  "grows N st st' =
     (files_read st' \<le> N
      \<and> take (length (requests st)) (requests st') = requests st
      \<and> (\<forall>(r, n) \<in> set (drop (length (requests st)) (requests st')). n < N))"

section \<open>Properties\<close>

subsection \<open>Strings\<close>

lemma isspace_upper_char: "isspace (upper_char c) = isspace c"
  by (auto simp: isspace_def upper_char_def split: option.splits if_splits)

lemma upper_char_idem: "upper_char (upper_char c) = upper_char c"
  by (simp add: upper_char_def)

lemma upper_idem: "upper (upper s) = upper s"
  by (simp add: upper_def upper_char_idem)

lemma upper_append: "upper (a @ b) = upper a @ upper b"
  by (simp add: upper_def)

lemma dropWhile_isspace_upper:
  "dropWhile isspace (upper s) = upper (dropWhile isspace s)"
  by (induction s) (simp_all add: upper_def isspace_upper_char)

lemma strip_upper: "strip (upper s) = upper (strip s)"
proof -
  have "rev (upper s) = upper (rev s)" for s
    by (simp add: upper_def rev_map)
  then show ?thesis
    by (simp add: strip_def dropWhile_isspace_upper)
qed

lemma strip_fixed:
  assumes "s = [] \<or> (\<not> isspace (hd s) \<and> \<not> isspace (last s))"
  shows "strip s = s"
proof (cases s)
  case Nil
  then show ?thesis by (simp add: strip_def)
next
  case (Cons c cs)
  with assms have h: "\<not> isspace (hd s)" and l: "\<not> isspace (last s)" by auto
  from h Cons have 1: "dropWhile isspace s = s" by simp
  have "hd (rev s) = last s" using Cons by (simp add: hd_rev)
  with l have "\<not> isspace (hd (rev s))" by simp
  moreover have "rev s \<noteq> []" using Cons by simp
  ultimately have 2: "dropWhile isspace (rev s) = rev s"
    by (cases "rev s") simp_all
  show ?thesis by (simp add: strip_def 1 2)
qed

lemma strip_shape:
  "strip s = [] \<or> (\<not> isspace (hd (strip s)) \<and> \<not> isspace (last (strip s)))"
proof (cases "strip s = []")
  case True
  then show ?thesis by simp
next
  case False
  define t where "t = dropWhile isspace s"
  define u where "u = dropWhile isspace (rev t)"
  have su: "strip s = rev u" by (simp add: strip_def t_def u_def)
  with False have une: "u \<noteq> []" by simp
  then have "\<not> isspace (hd u)" unfolding u_def by (metis hd_dropWhile)
  then have l: "\<not> isspace (last (strip s))" using une by (simp add: su last_rev)
  from une have tne: "t \<noteq> []" unfolding u_def by auto
  then have ht: "\<not> isspace (hd t)" unfolding t_def by (metis hd_dropWhile)
  have "last u = last (rev t)" using une unfolding u_def
    by (metis last_appendR takeWhile_dropWhile_id)
  then have "hd (strip s) = hd t" using une tne by (simp add: su hd_rev last_rev)
  with ht l show ?thesis by simp
qed

lemma strip_idem: "strip (strip s) = strip s"
  using strip_shape [of s] by (rule strip_fixed)


lemma startswith_append: "startswith (p @ s) p"
  by (simp add: startswith_def)

lemma endswith_append: "endswith (s @ p) p"
  by (simp add: endswith_def)

lemma endswith_prepend: "endswith s p \<Longrightarrow> endswith (a @ s) p"
  by (auto simp: endswith_def)

lemma endswith_last: "endswith s p \<Longrightarrow> p \<noteq> [] \<Longrightarrow> s \<noteq> [] \<and> last s = last p"
proof -
  assume a: "endswith s p" and p: "p \<noteq> []"
  then have "s = take (length s - length p) s @ p"
    by (metis append_take_drop_id endswith_def)
  with p show ?thesis
    by (metis append_is_Nil_conv last_appendR)
qed

subsection \<open>Symbol normalisation\<close>

text \<open>
  Claim C5, as the code has it. The normalised symbol is the trimmed, uppercased input,
  returned unchanged when it already starts with the exchange prefix \<open>EXCHANGE_\<close>;
  otherwise \<open>-EQ\<close> is appended unless the input already ends with it, and the exchange
  prefix is put in front. So every normalised symbol starts with the exchange prefix, and
  it ends with \<open>-EQ\<close> whenever the trimmed, uppercased input did not already carry the
  prefix. \<open>CIPLA\<close> with exchange \<open>NSE\<close> becomes \<open>NSE_CIPLA-EQ\<close>.
\<close>

theorem normalize_symbol_shape:
  "normalize_symbol_for_bucket sym' exchange =
     (let s = upper (strip sym')
      in if startswith s (exchange @ ''_'') then s
         else exchange @ ''_'' @ (if endswith s ''-EQ'' then s else s @ ''-EQ''))
   \<and> startswith (normalize_symbol_for_bucket sym' exchange) (exchange @ ''_'')
   \<and> (\<not> startswith (upper (strip sym')) (exchange @ ''_'')
        \<longrightarrow> endswith (normalize_symbol_for_bucket sym' exchange) ''-EQ'')"
proof -
  let ?s = "upper (strip sym')"
  let ?p = "exchange @ ''_''"
  have shape: "normalize_symbol_for_bucket sym' exchange =
     (if startswith ?s ?p then ?s
      else ?p @ (if endswith ?s ''-EQ'' then ?s else ?s @ ''-EQ''))"
    by (simp add: normalize_symbol_for_bucket_def Let_def)
  have pre: "startswith (normalize_symbol_for_bucket sym' exchange) ?p"
    using startswith_append [of ?p] by (simp add: shape)
  have suf: "endswith (normalize_symbol_for_bucket sym' exchange) ''-EQ''"
    if "\<not> startswith ?s ?p"
  proof -
    have "endswith (if endswith ?s ''-EQ'' then ?s else ?s @ ''-EQ'') ''-EQ''"
      using endswith_append [of ?s "''-EQ''"] by simp
    then have "endswith (?p @ (if endswith ?s ''-EQ'' then ?s else ?s @ ''-EQ'')) ''-EQ''"
      by (rule endswith_prepend)
    with that show ?thesis by (simp add: shape)
  qed
  from shape pre suf show ?thesis by (simp add: Let_def)
qed

theorem normalize_symbol_shape_witness:
  "\<not> startswith (upper (strip ''CIPLA'')) (''NSE'' @ ''_'')
   \<and> normalize_symbol_for_bucket ''CIPLA'' ''NSE'' = ''NSE_CIPLA-EQ''
   \<and> startswith (normalize_symbol_for_bucket ''CIPLA'' ''NSE'') (''NSE'' @ ''_'')
   \<and> endswith (normalize_symbol_for_bucket ''CIPLA'' ''NSE'') ''-EQ''"
proof -
  have h: "\<not> startswith (upper (strip ''CIPLA'')) (''NSE'' @ ''_'')"
    by (simp add: startswith_def upper_def upper_char_def strip_def isspace_def)
  have v: "normalize_symbol_for_bucket ''CIPLA'' ''NSE'' = ''NSE_CIPLA-EQ''"
    by (simp add: normalize_symbol_for_bucket_def startswith_def endswith_def upper_def
        upper_char_def strip_def isspace_def)
  from normalize_symbol_shape [of "''CIPLA''" "''NSE''"] h v show ?thesis by blast
qed

text \<open>
  The claim's "every normalised symbol ends with \<open>-EQ\<close>" fails for an input that already
  has the prefix: line 28 returns \<open>NSE_CIPLA\<close> as it is.
\<close>

theorem normalize_symbol_suffix_counterexample:
  "normalize_symbol_for_bucket ''NSE_CIPLA'' ''NSE'' = ''NSE_CIPLA''
   \<and> \<not> endswith (normalize_symbol_for_bucket ''NSE_CIPLA'' ''NSE'') ''-EQ''"
  by (simp add: normalize_symbol_for_bucket_def startswith_def endswith_def upper_def
      upper_char_def strip_def isspace_def)

text \<open>
  Claim C6, as the code has it. For an exchange string that uppercasing leaves unchanged
  and that has no leading whitespace (the default \<open>NSE\<close> is one), normalising a
  normalised symbol gives the same symbol, for every input.
\<close>

theorem normalize_symbol_idempotent:
  assumes up: "upper exchange = exchange"
    and lead: "dropWhile isspace exchange = exchange"
  shows "normalize_symbol_for_bucket (normalize_symbol_for_bucket sym' exchange) exchange
         = normalize_symbol_for_bucket sym' exchange"
proof -
  let ?s = "upper (strip sym')"
  let ?p = "exchange @ ''_''"
  have s_strip: "strip ?s = ?s" by (simp add: strip_upper strip_idem)
  have s_upper: "upper ?s = ?s" by (rule upper_idem)
  have fixed: "normalize_symbol_for_bucket r exchange = r"
    if "strip r = r" "upper r = r" "startswith r ?p" for r
    using that by (simp add: normalize_symbol_for_bucket_def)
  show ?thesis
  proof (cases "startswith ?s ?p")
    case True
    then have "normalize_symbol_for_bucket sym' exchange = ?s"
      by (simp add: normalize_symbol_for_bucket_def)
    with fixed [OF s_strip s_upper True] show ?thesis by simp
  next
    case False
    define s2 where "s2 = (if endswith ?s ''-EQ'' then ?s else ?s @ ''-EQ'')"
    define r where "r = ?p @ s2"
    from False have nr: "normalize_symbol_for_bucket sym' exchange = r"
      by (simp add: normalize_symbol_for_bucket_def r_def s2_def Let_def)
    have e2: "endswith s2 ''-EQ''"
      using endswith_append [of ?s "''-EQ''"] by (simp add: s2_def)
    then have l2: "s2 \<noteq> [] \<and> last s2 = CHR ''Q''"
      using endswith_last [of s2 "''-EQ''"] by simp
    have u2: "upper s2 = s2"
      using s_upper by (simp add: s2_def upper_append) (simp add: upper_def upper_char_def)
    have "upper r = r"
      using up u2 by (simp add: r_def upper_append) (simp add: upper_def upper_char_def)
    moreover have "strip r = r"
    proof (rule strip_fixed)
      have "\<not> isspace (hd r)"
      proof (cases exchange)
        case Nil
        then show ?thesis by (simp add: r_def isspace_def)
      next
        case (Cons c cs)
        with lead have "\<not> isspace c"
          by (metis dropWhile.simps(2) hd_dropWhile list.sel(1) list.simps(3))
        with Cons show ?thesis by (simp add: r_def)
      qed
      moreover have "\<not> isspace (last r)"
        using l2 by (simp add: r_def isspace_def)
      ultimately show "r = [] \<or> (\<not> isspace (hd r) \<and> \<not> isspace (last r))" by simp
    qed
    moreover have "startswith r ?p"
      unfolding r_def by (rule startswith_append)
    ultimately have "normalize_symbol_for_bucket r exchange = r" by (intro fixed)
    with nr show ?thesis by simp
  qed
qed

theorem normalize_symbol_idempotent_witness:
  "upper ''NSE'' = ''NSE'' \<and> dropWhile isspace ''NSE'' = ''NSE''
   \<and> normalize_symbol_for_bucket (normalize_symbol_for_bucket '' cipla '' ''NSE'') ''NSE''
       = ''NSE_CIPLA-EQ''
   \<and> normalize_symbol_for_bucket '' cipla '' ''NSE'' = ''NSE_CIPLA-EQ''"
proof -
  have u: "upper ''NSE'' = ''NSE''" by (simp add: upper_def upper_char_def)
  have d: "dropWhile isspace ''NSE'' = ''NSE''" by (simp add: isspace_def)
  have v: "normalize_symbol_for_bucket '' cipla '' ''NSE'' = ''NSE_CIPLA-EQ''"
    by (simp add: normalize_symbol_for_bucket_def startswith_def endswith_def upper_def
        upper_char_def strip_def isspace_def)
  from normalize_symbol_idempotent [OF u d, of "'' cipla ''"] u d v show ?thesis by simp
qed

text \<open>
  The exchange is a request parameter and is used as it comes, while the symbol is
  uppercased: with exchange \<open>nse\<close> the second normalisation adds the prefix again.
\<close>

theorem normalize_symbol_idempotent_counterexample:
  "normalize_symbol_for_bucket (normalize_symbol_for_bucket ''CIPLA'' ''nse'') ''nse''
   \<noteq> normalize_symbol_for_bucket ''CIPLA'' ''nse''"
  by (simp add: normalize_symbol_for_bucket_def startswith_def endswith_def upper_def
      upper_char_def strip_def isspace_def)

text \<open>
  Leading whitespace in the exchange has the same effect, since the symbol is trimmed.
\<close>

lemma normalize_leading_space_example:
  "normalize_symbol_for_bucket (normalize_symbol_for_bucket ''A'' '' X'') '' X''
   \<noteq> normalize_symbol_for_bucket ''A'' '' X''"
  by (simp add: normalize_symbol_for_bucket_def startswith_def endswith_def upper_def
      upper_char_def strip_def isspace_def)

subsection \<open>The range token\<close>

lemma digit_not_space: "is_digit c \<Longrightarrow> \<not> isspace c"
  by (auto simp: is_digit_def isspace_def)

lemma digit_not_sign: "is_digit c \<Longrightarrow> c \<noteq> CHR ''-'' \<and> c \<noteq> CHR ''+''"
  by (auto simp: is_digit_def)

lemma int_digits_True:
  "list_all is_digit ds \<Longrightarrow>
   int_digits True acc ds = Some (foldl (\<lambda>a c. 10 * a + digit_val c) acc ds)"
  by (induction ds arbitrary: acc) simp_all

lemma int_digits_all:
  assumes "ds \<noteq> []" "list_all is_digit ds"
  shows "int_digits p 0 ds = Some (spec_magnitude ds)"
proof (cases ds)
  case Nil
  with assms show ?thesis by simp
next
  case (Cons c cs)
  with assms show ?thesis
    by (simp add: int_digits_True spec_magnitude_def)
qed

lemma digit_not_int_space: "is_digit c \<Longrightarrow> \<not> int_isspace c"
  by (auto simp: is_digit_def int_isspace_def)

lemma int_strip_fixed:
  assumes "s = [] \<or> (\<not> int_isspace (hd s) \<and> \<not> int_isspace (last s))"
  shows "int_strip s = s"
proof (cases s)
  case Nil
  then show ?thesis by (simp add: int_strip_def)
next
  case (Cons c cs)
  with assms have h: "\<not> int_isspace (hd s)" and l: "\<not> int_isspace (last s)" by auto
  from h Cons have 1: "dropWhile int_isspace s = s" by simp
  have "hd (rev s) = last s" using Cons by (simp add: hd_rev)
  with l have "\<not> int_isspace (hd (rev s))" by simp
  moreover have "rev s \<noteq> []" using Cons by simp
  ultimately have 2: "dropWhile int_isspace (rev s) = rev s"
    by (cases "rev s") simp_all
  show ?thesis by (simp add: int_strip_def 1 2)
qed

lemma int_strip_digits:
  assumes "ds \<noteq> []" "list_all is_digit ds"
  shows "int_strip ds = ds"
proof (rule int_strip_fixed)
  from assms have "is_digit (hd ds)" "is_digit (last ds)"
    by (auto simp: list_all_iff)
  then show "ds = [] \<or> (\<not> int_isspace (hd ds) \<and> \<not> int_isspace (last ds))"
    by (simp add: digit_not_int_space)
qed

lemma py_int_digits:
  assumes ne: "ds \<noteq> []" and dig: "list_all is_digit ds"
    and len: "length ds \<le> int_max_str_digits"
  shows "py_int ds = Some (int (spec_magnitude ds))"
proof -
  from ne dig have "is_digit (hd ds)" by (auto simp: list_all_iff)
  then have sign: "hd ds \<noteq> CHR ''-''" "hd ds \<noteq> CHR ''+''"
    using digit_not_sign by auto
  from dig have "filter is_digit ds = ds" by (simp add: list_all_iff)
  with len have lim: "\<not> length (filter is_digit ds) > int_max_str_digits" by simp
  show ?thesis
    using sign lim
    by (simp add: py_int_def int_strip_digits [OF ne dig] int_digits_all [OF ne dig])
qed

lemma date_iter_upto: "date_iter start now = [ordinal start .. ordinal now]"
proof -
  have "map (\<lambda>i. a + int i) [0 ..< n] = [a .. a + int n - 1]" for a :: int and n
  proof (induction n)
    case 0
    then show ?case by simp
  next
    case (Suc n)
    have "[a .. a + int (Suc n) - 1] = [a .. a + int n - 1] @ [a + int n]"
      using upto_rec2 [of a "a + int n"] by simp
    with Suc show ?case by simp
  qed
  from this [of "ordinal start" "nat (ordinal now - ordinal start + 1)"]
  show ?thesis
    by (cases "ordinal start \<le> ordinal now") (simp_all add: date_iter_def)
qed

lemma lower_unit:
  assumes "u \<in> set ''dmy''"
  shows "lower_char u = u"
proof -
  from assms have "u = CHR ''d'' \<or> u = CHR ''m'' \<or> u = CHR ''y''" by simp
  then show ?thesis
    by (elim disjE) (simp_all add: lower_char_def)
qed

text \<open>
  Claim C3, as the code has it. Take a range token of the pattern \<^verbatim>\<open>^\d+[dmy]$\<close> with no
  more digits than \<^verbatim>\<open>int()\<close> converts, and an instant \<open>now\<close> of Python's date range such
  that \<open>magnitude * unitDays\<close> days before \<open>now\<close> is still a date (not before day 1, which
  is 0001-01-01). Then parsing returns \<open>start = now - magnitude * unitDays\<close> days (the
  time of day unchanged) with unitDays 1, 30, 365 for d, m, y; the end is \<open>now\<close> itself;
  \<open>start \<le> end\<close>; and the days enumerated are exactly those from the date of \<open>start\<close> to
  the date of \<open>now\<close>, both included: \<open>(end.date() - start.date()).days + 1\<close> of them.
  The token \<open>2y\<close> reaches 730 days back.
\<close>

theorem range_resolved:
  assumes tok: "spec_range_token rng"
    and len: "length (butlast rng) \<le> int_max_str_digits"
    and now_ok: "ordinal now \<le> MAXORDINAL"
    and repr: "MINORDINAL \<le>
                 ordinal now - int (spec_magnitude (butlast rng)) * spec_unit_days (last rng)"
  shows
    "(let k = int (spec_magnitude (butlast rng)) * spec_unit_days (last rng);
          start = now\<lparr>ordinal := ordinal now - k\<rparr>
      in parse_range now rng = Inr start
         \<and> nanos start \<le> nanos now
         \<and> date_iter start now = [ordinal start .. ordinal now]
         \<and> length (date_iter start now) = nat (ordinal now - ordinal start + 1)
         \<and> length (date_iter start now) = nat (k + 1))"
proof -
  define ds where "ds = butlast rng"
  define u where "u = last rng"
  define k where "k = int (spec_magnitude ds) * spec_unit_days u"
  define start where "start = now\<lparr>ordinal := ordinal now - k\<rparr>"
  from tok have l2: "2 \<le> length rng" and dig: "list_all is_digit ds"
    and unit: "u \<in> set ''dmy''"
    by (simp_all add: spec_range_token_def ds_def u_def)
  from l2 have ne: "rng \<noteq> []" by auto
  from l2 have "length ds \<noteq> 0" by (simp add: ds_def)
  then have dne: "ds \<noteq> []" by simp
  have val: "py_int ds = Some (int (spec_magnitude ds))"
    using dne dig len by (simp add: py_int_digits ds_def)
  have k0: "0 \<le> k"
    by (simp add: k_def spec_unit_days_def)
  from repr have lo: "MINORDINAL \<le> ordinal now - k"
    by (simp add: k_def ds_def u_def)
  with now_ok k0 have big: "\<not> \<bar>k\<bar> > 999999999"
    by (simp add: MINORDINAL_def MAXORDINAL_def)
  have sub: "datetime_sub now k = Inr start"
    using lo k0 now_ok big by (simp add: datetime_sub_def timedelta_days_def start_def)
  have "parse_range now rng = datetime_sub now k"
    using ne unit val
    by (auto simp: parse_range_def lower_unit k_def spec_unit_days_def ds_def [symmetric]
        u_def [symmetric] mult.commute)
  with sub have p: "parse_range now rng = Inr start" by simp
  have le: "nanos start \<le> nanos now"
    using k0 by (simp add: nanos_def start_def)
  have it: "date_iter start now = [ordinal start .. ordinal now]"
    by (rule date_iter_upto)
  have l1: "length (date_iter start now) = nat (ordinal now - ordinal start + 1)"
    by (simp add: date_iter_def)
  have l2: "length (date_iter start now) = nat (k + 1)"
    by (simp add: date_iter_def start_def)
  from p le it l1 l2 show ?thesis
    unfolding Let_def k_def [symmetric, unfolded ds_def u_def] start_def [symmetric]
    by simp
qed


theorem range_resolved_witness:
  "spec_range_token ''2y''
   \<and> length (butlast ''2y'') \<le> int_max_str_digits
   \<and> ordinal \<lparr>ordinal = 739924, micros = 0\<rparr> \<le> MAXORDINAL
   \<and> MINORDINAL \<le> ordinal \<lparr>ordinal = 739924, micros = 0\<rparr>
         - int (spec_magnitude (butlast ''2y'')) * spec_unit_days (last ''2y'')
   \<and> int (spec_magnitude (butlast ''2y'')) * spec_unit_days (last ''2y'') = 730
   \<and> parse_range \<lparr>ordinal = 739924, micros = 0\<rparr> ''2y''
       = Inr \<lparr>ordinal = 739194, micros = 0\<rparr>
   \<and> length (date_iter \<lparr>ordinal = 739194, micros = 0\<rparr> \<lparr>ordinal = 739924, micros = 0\<rparr>)
       = 731"
proof -
  let ?now = "\<lparr>ordinal = 739924, micros = 0\<rparr>"
  have k: "int (spec_magnitude (butlast ''2y'')) * spec_unit_days (last ''2y'') = 730"
    by (simp add: spec_magnitude_def spec_unit_days_def digit_val_def)
  have t: "spec_range_token ''2y''"
    by (simp add: spec_range_token_def is_digit_def)
  have l: "length (butlast ''2y'') \<le> int_max_str_digits"
    by (simp add: int_max_str_digits_def)
  have n: "ordinal ?now \<le> MAXORDINAL"
    by (simp add: MAXORDINAL_def)
  have r: "MINORDINAL \<le> ordinal ?now
         - int (spec_magnitude (butlast ''2y'')) * spec_unit_days (last ''2y'')"
    unfolding k by (simp add: MINORDINAL_def)
  from range_resolved [OF t l n r] k t l n r show ?thesis
    by (simp add: Let_def)
qed

text \<open>
  A token of the pattern may reach before 0001-01-01: for \<open>99999y\<close> the subtraction at
  line 61 raises OverflowError, outside every handler, and no start instant exists.
\<close>

theorem range_overflow_counterexample:
  "spec_range_token ''99999y''
   \<and> parse_range \<lparr>ordinal = 739924, micros = 0\<rparr> ''99999y'' = Inl (Unhandled OverflowError)"
  by (simp add: spec_range_token_def is_digit_def parse_range_def lower_char_def py_int_def
      int_strip_def int_isspace_def int_max_str_digits_def digit_val_def datetime_sub_def
      timedelta_days_def MINORDINAL_def MAXORDINAL_def)

lemma get_price_parse_range_failure:
  assumes "parse_params params = Inr (sym', timeframe, rng)"
    and "parse_range now rng = Inl e"
  shows "get_price E now params exchange max_files = (Inl e, init_state)"
  using assms by (simp add: get_price_def)

text \<open>
  What \<^verbatim>\<open>int()\<close> refuses includes every string with a character that is neither a digit
  nor an underscore, a sign or one of the whitespace characters it skips.
\<close>

lemma int_digits_chars:
  "int_digits prev acc cs = Some n \<Longrightarrow> c \<in> set cs \<Longrightarrow> is_digit c \<or> c = CHR ''_''"
  by (induction cs arbitrary: prev acc) (auto split: if_splits)

lemma int_strip_keeps: "c \<in> set s \<Longrightarrow> \<not> int_isspace c \<Longrightarrow> c \<in> set (int_strip s)"
proof -
  assume c: "c \<in> set s" "\<not> int_isspace c"
  have keep: "c \<in> set (dropWhile int_isspace xs)" if "c \<in> set xs" for xs
    using that c(2) by (induction xs) auto
  from c(1) have "c \<in> set (rev (dropWhile int_isspace s))" using keep by simp
  then have "c \<in> set (dropWhile int_isspace (rev (dropWhile int_isspace s)))" by (rule keep)
  then show ?thesis by (simp add: int_strip_def)
qed

lemma py_int_refuses:
  assumes "c \<in> set s" "\<not> is_digit c" "c \<noteq> CHR ''_''" "c \<noteq> CHR ''+''" "c \<noteq> CHR ''-''"
    "\<not> int_isspace c"
  shows "py_int s = None"
proof (rule ccontr)
  assume "py_int s \<noteq> None"
  define t where "t = int_strip s"
  define body where
    "body = (if t \<noteq> [] \<and> (hd t = CHR ''-'' \<or> hd t = CHR ''+'') then tl t else t)"
  from \<open>py_int s \<noteq> None\<close> obtain n where n: "int_digits False 0 body = Some n"
    by (auto simp: py_int_def Let_def t_def body_def split: if_splits option.splits)
  from assms have "c \<in> set t" unfolding t_def by (intro int_strip_keeps)
  with assms(4,5) have "c \<in> set body"
    unfolding body_def by (cases t) auto
  with int_digits_chars [OF n] assms(2,3) show False by blast
qed

text \<open>
  The separators FS, GS, RS and US count as whitespace for \<^verbatim>\<open>str.strip\<close> but not for
  \<^verbatim>\<open>int()\<close>: inside a range token they make the prefix malformed.
\<close>

lemma control_character_example:
  "py_int [CHR ''5'', CHR 0x1C] = None
   \<and> parse_range now [CHR ''5'', CHR 0x1C, CHR ''d'']
       = Inl (HTTPException 400 ''Range malformed, use e.g. 1d,7d,3m,1y'')"
proof -
  have "py_int [CHR ''5'', CHR 0x1C] = None"
    by (rule py_int_refuses [of "CHR 0x1C"]) (simp_all add: is_digit_def int_isspace_def)
  then show ?thesis by (simp add: parse_range_def)
qed

text \<open>
  Claim C4, as the code has it. When the request has three tokens, the range token is not
  empty and \<^verbatim>\<open>int()\<close> refuses the token without its last character, the request fails
  with the 400 "Range malformed" error, and no request has been sent to the store.
  \<^verbatim>\<open>int()\<close> refuses what is not a decimal integer literal, an optional sign included
  (\<open>py_int_refuses\<close> gives a class of such strings): \<open>abcd\<close> is refused at \<open>abc\<close>.
\<close>

theorem malformed_range_rejected:
  assumes params: "parse_params params = Inr (sym', timeframe, rng)"
    and ne: "rng \<noteq> []"
    and bad: "py_int (butlast rng) = None"
  shows "fst (get_price E now params exchange max_files)
           = Inl (HTTPException 400 ''Range malformed, use e.g. 1d,7d,3m,1y'')
         \<and> requests (snd (get_price E now params exchange max_files)) = []"
proof -
  from ne bad have "parse_range now rng
      = Inl (HTTPException 400 ''Range malformed, use e.g. 1d,7d,3m,1y'')"
    by (simp add: parse_range_def)
  from get_price_parse_range_failure [OF params this, of E exchange max_files]
  show ?thesis by (simp add: init_state_def)
qed

theorem malformed_range_rejected_witness:
  "parse_params ''CIPLA,15m,abcd'' = Inr (''CIPLA'', ''15m'', ''abcd'')
   \<and> ''abcd'' \<noteq> []
   \<and> py_int (butlast ''abcd'') = None
   \<and> fst (get_price
            \<lparr>paginate = (\<lambda>p. LastPage None), get_object = (\<lambda>k. Inl NoSuchKey),
             read_table = (\<lambda>b. None), to_timestamp = (\<lambda>v :: unit. None),
      datetime_convertible = (\<lambda>col. True)\<rparr>
            \<lparr>ordinal = 739924, micros = 0\<rparr> ''CIPLA,15m,abcd'' ''NSE'' 50)
       = Inl (HTTPException 400 ''Range malformed, use e.g. 1d,7d,3m,1y'')
   \<and> requests (snd (get_price
            \<lparr>paginate = (\<lambda>p. LastPage None), get_object = (\<lambda>k. Inl NoSuchKey),
             read_table = (\<lambda>b. None), to_timestamp = (\<lambda>v :: unit. None),
      datetime_convertible = (\<lambda>col. True)\<rparr>
            \<lparr>ordinal = 739924, micros = 0\<rparr> ''CIPLA,15m,abcd'' ''NSE'' 50)) = []"
proof -
  have p: "parse_params ''CIPLA,15m,abcd'' = Inr (''CIPLA'', ''15m'', ''abcd'')"
    by (simp add: parse_params_def strip_def isspace_def)
  have n: "''abcd'' \<noteq> []" by simp
  have b: "py_int (butlast ''abcd'') = None"
    by (simp add: py_int_def int_strip_def int_isspace_def
        strip_def isspace_def is_digit_def int_max_str_digits_def)
  from malformed_range_rejected [OF p n b] p n b show ?thesis by blast
qed

text \<open>
  A signed prefix is not a non-negative integer in the specification's sense, but
  \<^verbatim>\<open>int()\<close> accepts it: for \<open>-5d\<close> the start lies five days after \<open>now\<close>, no day is
  enumerated, and the request ends with the 404 error, not with "Range malformed".
\<close>

theorem signed_range_counterexample:
  "\<not> spec_non_negative_integer (butlast ''-5d'')
   \<and> parse_range \<lparr>ordinal = 739924, micros = 0\<rparr> ''-5d''
       = Inr \<lparr>ordinal = 739929, micros = 0\<rparr>
   \<and> fst (get_price
            \<lparr>paginate = (\<lambda>p. LastPage None), get_object = (\<lambda>k. Inl NoSuchKey),
             read_table = (\<lambda>b. None), to_timestamp = (\<lambda>v :: unit. None),
      datetime_convertible = (\<lambda>col. True)\<rparr>
            \<lparr>ordinal = 739924, micros = 0\<rparr> ''CIPLA,15m,-5d'' ''NSE'' 50)
       = Inl (HTTPException 404 ''No parquet files found for query.'')"
proof -
  have a: "\<not> spec_non_negative_integer (butlast ''-5d'')"
    by (simp add: spec_non_negative_integer_def is_digit_def)
  have b: "parse_range \<lparr>ordinal = 739924, micros = 0\<rparr> ''-5d''
       = Inr \<lparr>ordinal = 739929, micros = 0\<rparr>"
    by (simp add: parse_range_def lower_char_def py_int_def int_strip_def int_isspace_def
        strip_def isspace_def is_digit_def
        int_max_str_digits_def digit_val_def datetime_sub_def timedelta_days_def
        MINORDINAL_def MAXORDINAL_def)
  have p: "parse_params ''CIPLA,15m,-5d'' = Inr (''CIPLA'', ''15m'', ''-5d'')"
    by (simp add: parse_params_def strip_def isspace_def)
  have d: "date_iter \<lparr>ordinal = 739929, micros = 0\<rparr> \<lparr>ordinal = 739924, micros = 0\<rparr> = []"
    by (simp add: date_iter_def)
  show ?thesis
    using a b by (simp add: get_price_def p d init_state_def)
qed

lemma datetime_sub_not_IndexError: "datetime_sub t k \<noteq> Inl (Unhandled IndexError)"
  by (simp add: datetime_sub_def timedelta_days_def Let_def)

lemma parse_range_IndexError:
  "(parse_range now rng = Inl (Unhandled IndexError)) = (rng = [])"
  by (auto simp: parse_range_def Let_def datetime_sub_not_IndexError split: option.splits)

text \<open>
  Claim C10. When the request splits into three tokens at the commas and the third is
  empty once trimmed (as in \<open>CIPLA,15m,\<close>), the three-token check passes and the request
  ends in an unhandled IndexError from \<^verbatim>\<open>rng[-1]\<close>: no HTTP error of any status is
  reported, so neither "Range malformed" nor "Unknown range unit". The IndexError arises
  for the empty token and for no other: range parsing can return or report an error only
  for a non-empty token.
\<close>

theorem empty_range_token_index_error:
  assumes split: "split_on CHR '','' params = [a, b, c]"
    and empty: "strip c = []"
  shows "parse_params params = Inr (strip a, strip b, [])
         \<and> get_price E now params exchange max_files = (Inl (Unhandled IndexError), init_state)
         \<and> (\<forall>code detail. fst (get_price E now params exchange max_files)
                             \<noteq> Inl (HTTPException code detail))
         \<and> (parse_range now rng = Inl (Unhandled IndexError)) = (rng = [])"
proof -
  from split empty have p: "parse_params params = Inr (strip a, strip b, [])"
    by (simp add: parse_params_def)
  have r: "parse_range now [] = Inl (Unhandled IndexError)"
    by (simp add: parse_range_def)
  from get_price_parse_range_failure [OF p r, of E exchange max_files]
  have g: "get_price E now params exchange max_files = (Inl (Unhandled IndexError), init_state)" .
  from p g parse_range_IndexError [of now rng] show ?thesis by simp
qed

theorem empty_range_token_index_error_witness:
  "split_on CHR '','' ''CIPLA,15m,'' = [''CIPLA'', ''15m'', []]
   \<and> strip [] = []
   \<and> parse_params ''CIPLA,15m,'' = Inr (''CIPLA'', ''15m'', [])
   \<and> get_price
         \<lparr>paginate = (\<lambda>p. LastPage None), get_object = (\<lambda>k. Inl NoSuchKey),
             read_table = (\<lambda>b. None), to_timestamp = (\<lambda>v :: unit. None),
      datetime_convertible = (\<lambda>col. True)\<rparr>
         \<lparr>ordinal = 739924, micros = 0\<rparr> ''CIPLA,15m,'' ''NSE'' 50 = (Inl (Unhandled IndexError), init_state)"
proof -
  have s: "split_on CHR '','' ''CIPLA,15m,'' = [''CIPLA'', ''15m'', []]" by simp
  have e: "strip [] = []" by (simp add: strip_def)
  have "strip ''CIPLA'' = ''CIPLA''" "strip ''15m'' = ''15m''"
    by (simp_all add: strip_def isspace_def)
  with empty_range_token_index_error [OF s e, of "\<lparr>paginate = (\<lambda>p. LastPage None), get_object = (\<lambda>k. Inl NoSuchKey),              read_table = (\<lambda>b. None), to_timestamp = (\<lambda>v :: unit. None),
      datetime_convertible = (\<lambda>col. True)\<rparr>" "\<lparr>ordinal = 739924, micros = 0\<rparr>" "''NSE''" 50] s e show ?thesis
    by simp
qed

subsection \<open>The traversal: counter, rows and requests\<close>

lemma sent_fields [simp]:
  "rows (sent r st) = rows st" "files_read (sent r st) = files_read st"
  "printed (sent r st) = printed st" "raised (sent r st) = raised st"
  "requests (sent r st) = requests st @ [(r, files_read st)]"
  by (simp_all add: sent_def)

lemma obj_loop_halted: "max_files \<le> files_read st \<Longrightarrow> obj_loop E max_files keys st = st"
  by (induction keys) simp_all

lemma steady_refl: "steady st st"
  by (simp add: steady_def)

lemma take_prefix_trans:
  assumes "take (length a) b = a" "take (length b) c = b"
  shows "take (length a) c = a"
proof -
  from assms(1) have "length a \<le> length b"
    by (metis length_take min.cobounded1)
  then have "take (length a) c = take (length a) (take (length b) c)" by simp
  with assms show ?thesis by simp
qed

lemma steady_trans:
  assumes "steady a b" "steady b c"
  shows "steady a c"
proof -
  from assms have "take (length (requests a)) (requests c) = requests a"
    unfolding steady_def by (meson take_prefix_trans)
  moreover from assms
  have "raised c = raised a \<or> (\<exists>e. raised c = Some (Unhandled (S3Error e)))"
    unfolding steady_def by auto
  ultimately show ?thesis using assms unfolding steady_def by simp
qed

lemma obj_loop_steady: "steady st (obj_loop E N keys st)"
proof (induction keys arbitrary: st)
  case Nil
  show ?case by (simp add: steady_refl)
next
  case (Cons key keys)
  let ?st1 = "sent (GetObject key) st"
  have fail: "steady st (?st1\<lparr>raised := Some (Unhandled (S3Error e))\<rparr>)" for e
    by (simp add: steady_def)
  have bad: "steady st (obj_loop E N keys (?st1\<lparr>printed := printed ?st1 @ [(key, e)]\<rparr>))" for e
  proof (rule steady_trans [OF _ Cons.IH])
    show "steady st (?st1\<lparr>printed := printed ?st1 @ [(key, e)]\<rparr>)" by (simp add: steady_def)
  qed
  have ok: "steady st (obj_loop E N keys
      (?st1\<lparr>rows := rows ?st1 @ [df], files_read := files_read ?st1 + 1\<rparr>))" for df
  proof (rule steady_trans [OF _ Cons.IH])
    show "steady st (?st1\<lparr>rows := rows ?st1 @ [df], files_read := files_read ?st1 + 1\<rparr>)"
      by (simp add: steady_def)
  qed
  show ?case
    using Cons.IH [of st] fail bad ok
    by (simp add: steady_refl Let_def split: sum.splits)
qed

lemma page_loop_steady: "steady st (page_loop E N prefix pages st)"
proof (induction pages arbitrary: st)
  case (LastPage page)
  have "steady st (sent (ListObjects prefix) st)" by (simp add: steady_def)
  then have "steady st (obj_loop E N (contents page) (sent (ListObjects prefix) st))"
    using obj_loop_steady by (rule steady_trans)
  then show ?case by simp
next
  case (NextPage page pages)
  let ?st' = "obj_loop E N (contents page) (sent (ListObjects prefix) st)"
  have "steady st (sent (ListObjects prefix) st)" by (simp add: steady_def)
  then have 1: "steady st ?st'" using obj_loop_steady by (rule steady_trans)
  then have "steady st (page_loop E N prefix pages ?st')"
    using NextPage.IH by (rule steady_trans)
  with 1 show ?case by (simp add: Let_def)
next
  case (ListError e)
  show ?case by (simp add: steady_def)
qed

lemma prefix_loop_steady: "steady st (prefix_loop E N prefixes st)"
proof (induction prefixes arbitrary: st)
  case Nil
  show ?case by (simp add: steady_refl)
next
  case (Cons p ps)
  have 1: "steady st (page_loop E N p (paginate E p) st)" by (rule page_loop_steady)
  then have "steady st (prefix_loop E N ps (page_loop E N p (paginate E p) st))"
    using Cons.IH by (rule steady_trans)
  with 1 show ?case by (simp add: Let_def)
qed

lemma day_loop_steady: "steady st (day_loop E N timeframe exchange symbol days st)"
proof (induction days arbitrary: st)
  case Nil
  show ?case by (simp add: steady_refl)
next
  case (Cons d ds)
  let ?st' = "prefix_loop E N (prefixes_to_try timeframe exchange symbol d) st"
  have 1: "steady st ?st'" by (rule prefix_loop_steady)
  then have "steady st (day_loop E N timeframe exchange symbol ds ?st')"
    using Cons.IH by (rule steady_trans)
  with 1 show ?case by (simp add: Let_def)
qed


lemma take_is_prefix: "(take (length a) b = a) = (\<exists>new. b = a @ new)"
  by (metis append_eq_conv_conj append_take_drop_id)

lemma grows_refl: "files_read st \<le> N \<Longrightarrow> grows N st st"
  by (simp add: grows_def)

lemma grows_trans:
  assumes "grows N a b" "grows N b c"
  shows "grows N a c"
proof -
  from assms obtain n1 n2 where b: "requests b = requests a @ n1"
    and c: "requests c = requests b @ n2"
    unfolding grows_def take_is_prefix by blast
  from assms b c have "\<forall>(r, n) \<in> set n1. n < N" "\<forall>(r, n) \<in> set n2. n < N"
    unfolding grows_def by simp_all
  then have "\<forall>(r, n) \<in> set (n1 @ n2). n < N" by auto
  moreover have "requests c = requests a @ (n1 @ n2)" using b c by simp
  moreover from assms have "files_read c \<le> N" by (simp add: grows_def)
  ultimately show ?thesis unfolding grows_def by simp
qed

lemma obj_loop_grows: "files_read st \<le> N \<Longrightarrow> grows N st (obj_loop E N keys st)"
proof (induction keys arbitrary: st)
  case Nil
  then show ?case by (simp add: grows_refl)
next
  case (Cons key keys)
  show ?case
  proof (cases "N \<le> files_read st")
    case True
    then have "obj_loop E N (key # keys) st = st" by (rule obj_loop_halted)
    with Cons.prems show ?thesis by (simp add: grows_refl)
  next
    case below: False
    let ?st1 = "sent (GetObject key) st"
    have fail: "grows N st (?st1\<lparr>raised := Some (Unhandled (S3Error e))\<rparr>)" for e
      using below by (simp add: grows_def)
    have bad: "grows N st (obj_loop E N keys (?st1\<lparr>printed := printed ?st1 @ [(key, e)]\<rparr>))"
      for e
    proof (rule grows_trans)
      show "grows N st (?st1\<lparr>printed := printed ?st1 @ [(key, e)]\<rparr>)"
        using below by (simp add: grows_def)
      show "grows N (?st1\<lparr>printed := printed ?st1 @ [(key, e)]\<rparr>)
              (obj_loop E N keys (?st1\<lparr>printed := printed ?st1 @ [(key, e)]\<rparr>))"
        using below by (intro Cons.IH) simp
    qed
    have ok: "grows N st (obj_loop E N keys
        (?st1\<lparr>rows := rows ?st1 @ [df], files_read := files_read ?st1 + 1\<rparr>))" for df
    proof (rule grows_trans)
      show "grows N st (?st1\<lparr>rows := rows ?st1 @ [df], files_read := files_read ?st1 + 1\<rparr>)"
        using below by (simp add: grows_def)
      show "grows N (?st1\<lparr>rows := rows ?st1 @ [df], files_read := files_read ?st1 + 1\<rparr>)
              (obj_loop E N keys
                 (?st1\<lparr>rows := rows ?st1 @ [df], files_read := files_read ?st1 + 1\<rparr>))"
        using below by (intro Cons.IH) simp
    qed
    show ?thesis
      using Cons.IH [of st] Cons.prems fail bad ok below
      by (simp add: Let_def split: sum.splits)
  qed
qed

lemma listing_grows:
  "files_read st < N \<Longrightarrow>
   grows N st (obj_loop E N keys (sent (ListObjects prefix) st))"
proof (rule grows_trans)
  assume "files_read st < N"
  then show "grows N st (sent (ListObjects prefix) st)" by (simp add: grows_def)
  assume "files_read st < N"
  then show "grows N (sent (ListObjects prefix) st)
     (obj_loop E N keys (sent (ListObjects prefix) st))"
    by (intro obj_loop_grows) simp
qed

lemma page_loop_grows:
  "files_read st < N \<Longrightarrow> grows N st (page_loop E N prefix pages st)"
proof (induction pages arbitrary: st)
  case (LastPage page)
  then show ?case by (simp add: listing_grows)
next
  case (NextPage page pages)
  let ?st' = "obj_loop E N (contents page) (sent (ListObjects prefix) st)"
  from NextPage.prems have 1: "grows N st ?st'" by (rule listing_grows)
  have "grows N st (page_loop E N prefix pages ?st')" if "\<not> halted N ?st'"
  proof (rule grows_trans [OF 1])
    from that have "files_read ?st' < N" by (simp add: halted_def)
    then show "grows N ?st' (page_loop E N prefix pages ?st')" by (rule NextPage.IH)
  qed
  with 1 show ?case by (simp add: Let_def)
next
  case (ListError e)
  then show ?case by (simp add: grows_def)
qed

lemma prefix_loop_grows:
  "files_read st < N \<Longrightarrow> grows N st (prefix_loop E N prefixes st)"
proof (induction prefixes arbitrary: st)
  case Nil
  then show ?case by (simp add: grows_refl)
next
  case (Cons p ps)
  let ?st' = "page_loop E N p (paginate E p) st"
  from Cons.prems have 1: "grows N st ?st'" by (rule page_loop_grows)
  have "grows N st (prefix_loop E N ps ?st')" if "\<not> halted N ?st'"
  proof (rule grows_trans [OF 1])
    from that have "files_read ?st' < N" by (simp add: halted_def)
    then show "grows N ?st' (prefix_loop E N ps ?st')" by (rule Cons.IH)
  qed
  with 1 show ?case by (simp add: Let_def)
qed

lemma day_loop_grows:
  "files_read st < N \<Longrightarrow> grows N st (day_loop E N timeframe exchange symbol days st)"
proof (induction days arbitrary: st)
  case Nil
  then show ?case by (simp add: grows_refl)
next
  case (Cons d ds)
  let ?st' = "prefix_loop E N (prefixes_to_try timeframe exchange symbol d) st"
  from Cons.prems have 1: "grows N st ?st'" by (rule prefix_loop_grows)
  have "grows N st (day_loop E N timeframe exchange symbol ds ?st')" if "\<not> halted N ?st'"
  proof (rule grows_trans [OF 1])
    from that have "files_read ?st' < N" by (simp add: halted_def)
    then show "grows N ?st' (day_loop E N timeframe exchange symbol ds ?st')"
      by (rule Cons.IH)
  qed
  with 1 show ?case by (simp add: Let_def)
qed

text \<open>Entered with the budget already spent, a loop sends one listing at most.\<close>

lemma page_loop_spent:
  assumes "N \<le> files_read st"
  shows "files_read (page_loop E N prefix pages st) = files_read st
         \<and> rows (page_loop E N prefix pages st) = rows st
         \<and> requests (page_loop E N prefix pages st)
             = requests st @ [(ListObjects prefix, files_read st)]"
proof -
  have "obj_loop E N keys (sent (ListObjects prefix) st) = sent (ListObjects prefix) st" for keys
    using assms by (intro obj_loop_halted) simp
  with assms show ?thesis
    by (cases pages) (simp_all add: halted_def Let_def)
qed

lemma prefix_loop_spent:
  assumes "N \<le> files_read st"
  shows "files_read (prefix_loop E N prefixes st) = files_read st
         \<and> rows (prefix_loop E N prefixes st) = rows st
         \<and> requests (prefix_loop E N prefixes st)
             = requests st @ (case prefixes of [] \<Rightarrow> []
                                | p # ps \<Rightarrow> [(ListObjects p, files_read st)])"
proof (cases prefixes)
  case Nil
  then show ?thesis by simp
next
  case (Cons p ps)
  from assms have "halted N (page_loop E N p (paginate E p) st)"
    using page_loop_spent [OF assms, of E p "paginate E p"] by (simp add: halted_def)
  with Cons show ?thesis
    using page_loop_spent [OF assms, of E p "paginate E p"] by (simp add: Let_def)
qed

lemma day_loop_spent:
  assumes "N \<le> files_read st"
  shows "files_read (day_loop E N timeframe exchange symbol days st) = files_read st
         \<and> rows (day_loop E N timeframe exchange symbol days st) = rows st
         \<and> (\<exists>new. requests (day_loop E N timeframe exchange symbol days st) = requests st @ new
                   \<and> length new \<le> 1 \<and> (\<forall>(r, n) \<in> set new. n = files_read st))"
proof (cases days)
  case Nil
  then show ?thesis by simp
next
  case (Cons d ds)
  let ?ps = "prefixes_to_try timeframe exchange symbol d"
  note s = prefix_loop_spent [OF assms, of E ?ps]
  from assms s have "halted N (prefix_loop E N ?ps st)" by (simp add: halted_def)
  with Cons s show ?thesis
    by (simp add: Let_def prefixes_to_try_def)
qed


lemma get_price_state:
  "snd (get_price E now params exchange N) = init_state
   \<or> (\<exists>timeframe symbol days.
         snd (get_price E now params exchange N)
           = day_loop E N timeframe exchange symbol days init_state)"
  by (auto simp: get_price_def Let_def split: sum.splits option.splits prod.splits)

text \<open>
  Claim C1. For every range query with budget \<open>max_files = N\<close> (positive, as the
  specification's Query has it): the counter \<open>files_read\<close> is at most \<open>N\<close> when the
  traversal ends, whatever the store holds, and it counts exactly the tables appended
  to \<open>rows\<close>; every request that went to the store, listing or fetch, was sent while the
  counter was still below \<open>N\<close>. So the counter never exceeds \<open>N\<close> at any point, and once
  it has reached \<open>N\<close> no object is fetched and no page, variant or day is listed any more.
  The object loop entered with the budget spent changes nothing: it passes over keys that
  are not parquet files and breaks at the first that is.
\<close>

theorem file_budget:
  assumes "0 < N"
  shows "files_read (snd (get_price E now params exchange N)) \<le> N
         \<and> (\<forall>(r, n) \<in> set (requests (snd (get_price E now params exchange N))). n < N)
         \<and> int (length (rows (snd (get_price E now params exchange N))))
             = files_read (snd (get_price E now params exchange N))
         \<and> (\<forall>keys s. N \<le> files_read s \<longrightarrow> obj_loop E N keys s = s)"
proof -
  let ?st = "snd (get_price E now params exchange N)"
  have halt: "\<forall>keys s. N \<le> files_read s \<longrightarrow> obj_loop E N keys s = s"
    by (simp add: obj_loop_halted)
  have main: "files_read ?st \<le> N
      \<and> (\<forall>(r, n) \<in> set (requests ?st). n < N)
      \<and> int (length (rows ?st)) = files_read ?st"
    using get_price_state [of E now params exchange N]
  proof (elim disjE exE)
    assume "?st = init_state"
    with assms show ?thesis by (simp add: init_state_def)
  next
    fix timeframe symbol days
    assume st: "?st = day_loop E N timeframe exchange symbol days init_state"
    have "steady init_state ?st" unfolding st by (rule day_loop_steady)
    then have rows: "int (length (rows ?st)) = files_read ?st"
      by (simp add: steady_def init_state_def)
    from assms have "grows N init_state ?st"
      unfolding st by (intro day_loop_grows) (simp add: init_state_def)
    then have "files_read ?st \<le> N" and "\<forall>(r, n) \<in> set (requests ?st). n < N"
      by (simp_all add: grows_def init_state_def)
    with rows show ?thesis by blast
  qed
  from main halt show ?thesis by blast
qed

text \<open>
  Budget 1, two parquet objects under every prefix: one object is fetched, and after it
  nothing is requested, neither the second object nor the encoded variant nor the next day.
\<close>

theorem file_budget_witness:
  "(0::int) < 1
   \<and> files_read (snd (get_price
        \<lparr>paginate = (\<lambda>p. LastPage (Some [''a.parquet'', ''b.parquet''])),
         get_object = (\<lambda>k. Inr k),
         read_table = (\<lambda>b. Some \<lparr>columns = [''close''], records = [[(''close'', Raw b)]]\<rparr>),
         to_timestamp = (\<lambda>v. None),
      datetime_convertible = (\<lambda>col. True)\<rparr>
        \<lparr>ordinal = 739924, micros = 0\<rparr> ''CIPLA,15m,1d'' ''NSE'' 1)) = 1
   \<and> requests (snd (get_price
        \<lparr>paginate = (\<lambda>p. LastPage (Some [''a.parquet'', ''b.parquet''])),
         get_object = (\<lambda>k. Inr k),
         read_table = (\<lambda>b. Some \<lparr>columns = [''close''], records = [[(''close'', Raw b)]]\<rparr>),
         to_timestamp = (\<lambda>v. None),
      datetime_convertible = (\<lambda>col. True)\<rparr>
        \<lparr>ordinal = 739924, micros = 0\<rparr> ''CIPLA,15m,1d'' ''NSE'' 1))
       = [(ListObjects
            ''processed/timeframe=15m/exchange=NSE/symbol=NSE_CIPLA-EQ/year=2026/month=11/day=03/'',
           0),
          (GetObject ''a.parquet'', 0)]"
proof -
  let ?E = "\<lparr>paginate = (\<lambda>p. LastPage (Some [''a.parquet'', ''b.parquet''])),
         get_object = (\<lambda>k. Inr k),
         read_table = (\<lambda>b. Some \<lparr>columns = [''close''], records = [[(''close'', Raw b)]]\<rparr>),
         to_timestamp = (\<lambda>v :: string. None :: int option),
      datetime_convertible = (\<lambda>col. True)\<rparr>"
  let ?now = "\<lparr>ordinal = 739924, micros = 0\<rparr>"
  have p: "parse_params ''CIPLA,15m,1d'' = Inr (''CIPLA'', ''15m'', ''1d'')"
    by (simp add: parse_params_def strip_def isspace_def)
  have r: "parse_range ?now ''1d'' = Inr \<lparr>ordinal = 739923, micros = 0\<rparr>"
    by (simp add: parse_range_def lower_char_def py_int_def int_strip_def int_isspace_def
        strip_def isspace_def is_digit_def
        int_max_str_digits_def digit_val_def datetime_sub_def timedelta_days_def
        MINORDINAL_def MAXORDINAL_def)
  have d: "date_iter \<lparr>ordinal = 739923, micros = 0\<rparr> ?now = [739923, 739924]"
    by (simp add: date_iter_def upt_rec)
  have n: "normalize_symbol_for_bucket ''CIPLA'' ''NSE'' = ''NSE_CIPLA-EQ''"
    by (simp add: normalize_symbol_for_bucket_def startswith_def endswith_def upper_def
        upper_char_def strip_def isspace_def)
  have y: "ord2ymd 739923 = (2026, 11, 3)"
    by (simp add: ord2ymd_def Let_def days_before_month_def days_in_month_def)
  have f: "prefixes_to_try ''15m'' ''NSE'' ''NSE_CIPLA-EQ'' 739923
     = [''processed/timeframe=15m/exchange=NSE/symbol=NSE_CIPLA-EQ/year=2026/month=11/day=03/'',
        ''processed/timeframe%3D15m/exchange%3DNSE/symbol%3DNSE_CIPLA-EQ/year%3D2026/month%3D11/day%3D03/'']"
    by (simp add: prefixes_to_try_def y template_unencoded_def template_encoded_def str_int_def
        fmt_02d_def dec.simps digit_char_def)
  have run: "snd (get_price ?E ?now ''CIPLA,15m,1d'' ''NSE'' 1)
     = \<lparr>rows = [\<lparr>columns = [''close''], records = [[(''close'', Raw ''a.parquet'')]]\<rparr>],
        files_read = 1, printed = [],
        requests = [(ListObjects
            ''processed/timeframe=15m/exchange=NSE/symbol=NSE_CIPLA-EQ/year=2026/month=11/day=03/'',
           0), (GetObject ''a.parquet'', 0)],
        raised = None\<rparr>"
    by (simp add: get_price_def p r d n f init_state_def contents_def sent_def halted_def
        endswith_def lower_def lower_char_def read_parquet_bytes_def Let_def
        filter_loop.simps candidates_def concat_frames_def union_columns_def reindex_def)
  from file_budget [of 1 ?E ?now "''CIPLA,15m,1d''" "''NSE''"] run show ?thesis
    by simp
qed

subsection \<open>The candidate prefixes and the order of probing\<close>

lemma dec_one_digit: "n < 10 \<Longrightarrow> dec n = [digit_char n]"
  by (simp add: dec.simps)

lemma dec_two_digits:
  "10 \<le> n \<Longrightarrow> n < 100 \<Longrightarrow> dec n = [digit_char (n div 10), digit_char (n mod 10)]"
  by (subst dec.simps) (simp add: dec_one_digit)

lemma fmt_02d_two_digits:
  assumes "0 \<le> i" "i < 100"
  shows "fmt_02d i = [digit_char (nat i div 10), digit_char (nat i mod 10)]"
proof (cases "nat i < 10")
  case True
  with assms show ?thesis
    by (simp add: fmt_02d_def dec_one_digit digit_char_def)
next
  case False
  with assms have "10 \<le> nat i" "nat i < 100" by simp_all
  with assms show ?thesis
    by (simp add: fmt_02d_def dec_two_digits)
qed

lemma month_day_bounds:
  fixes r :: int and leap :: bool
  assumes r: "0 \<le> r" "r < 365"
  defines "month \<equiv> (r + 50) div 32"
  defines "preceding \<equiv> days_before_month month + (if month > 2 \<and> leap then 1 else 0)"
  defines "before \<equiv> preceding
             - (days_in_month (month - 1) + (if month - 1 = 2 \<and> leap then 1 else 0))"
  shows "if preceding > r
         then 1 \<le> month - 1 \<and> month - 1 \<le> 12 \<and> 1 \<le> r - before + 1 \<and> r - before + 1 \<le> 31
         else 1 \<le> month \<and> month \<le> 12 \<and> 1 \<le> r - preceding + 1 \<and> r - preceding + 1 \<le> 31"
proof -
  have lo: "32 * month \<le> r + 50" and hi: "r + 50 < 32 * month + 32"
    unfolding month_def by presburger+
  with r have "1 \<le> month" "month \<le> 12" by presburger+
  then consider "month = 1" | "month = 2" | "month = 3" | "month = 4" | "month = 5"
    | "month = 6" | "month = 7" | "month = 8" | "month = 9" | "month = 10" | "month = 11"
    | "month = 12"
    by atomize_elim arith
  then show ?thesis
    using lo hi r unfolding preceding_def before_def
    by cases (simp_all add: days_before_month_def days_in_month_def)
qed


lemma ord2ymd_bounds:
  "case ord2ymd day of (Y, m, d) \<Rightarrow> 1 \<le> m \<and> m \<le> 12 \<and> 1 \<le> d \<and> d \<le> 31"
proof -
  define n100 where "n100 = (day - 1) mod 146097 div 36524"
  define n4 where "n4 = (day - 1) mod 146097 mod 36524 div 1461"
  define n1 where "n1 = (day - 1) mod 146097 mod 36524 mod 1461 div 365"
  define r where "r = (day - 1) mod 146097 mod 36524 mod 1461 mod 365"
  define y where "y = (day - 1) div 146097 * 400 + 1 + n100 * 100 + n4 * 4 + n1"
  define leap where "leap = (n1 = 3 \<and> (n4 \<noteq> 24 \<or> n100 = 3))"
  define M where "M = (r + 50) div 32"
  define P where "P = days_before_month M + (if M > 2 \<and> leap then 1 else 0)"
  define B where "B = P - (days_in_month (M - 1) + (if M - 1 = 2 \<and> leap then 1 else 0))"
  have eq: "ord2ymd day =
      (if n1 = 4 \<or> n100 = 4 then (y - 1, 12, 31)
       else if P > r then (y, M - 1, r - B + 1) else (y, M, r - P + 1))"
    unfolding ord2ymd_def Let_def B_def P_def M_def leap_def y_def r_def n1_def n4_def n100_def
    by (rule refl)
  have "0 \<le> r" unfolding r_def by (rule pos_mod_sign) simp
  moreover have "r < 365" unfolding r_def by (rule pos_mod_bound) simp
  ultimately have
    "if P > r
     then 1 \<le> M - 1 \<and> M - 1 \<le> 12 \<and> 1 \<le> r - B + 1 \<and> r - B + 1 \<le> 31
     else 1 \<le> M \<and> M \<le> 12 \<and> 1 \<le> r - P + 1 \<and> r - P + 1 \<le> 31"
    unfolding B_def P_def M_def by (rule month_day_bounds)
  then show ?thesis
    unfolding eq by (simp split: if_splits)
qed

lemma prefixes_to_try_templates:
  "prefixes_to_try timeframe exchange symbol day
   = [path_template ''='' timeframe exchange symbol (ord2ymd day),
      path_template ''%3D'' timeframe exchange symbol (ord2ymd day)]"
  by (simp add: prefixes_to_try_def path_template_def template_unencoded_def
      template_encoded_def split: prod.splits)

lemma path_templates_differ:
  "path_template ''='' timeframe exchange symbol ymd
   \<noteq> path_template ''%3D'' timeframe exchange symbol ymd"
  by (simp add: path_template_def split: prod.splits)

lemma day_loop_flat:
  "day_loop E N timeframe exchange symbol days st
   = prefix_loop E N (concat (map (prefixes_to_try timeframe exchange symbol) days)) st"
proof (induction days arbitrary: st)
  case Nil
  show ?case by simp
next
  case (Cons d ds)
  show ?case
    by (simp add: Cons.IH prefixes_to_try_templates Let_def)
qed

lemma steady_requests: "steady st st' \<Longrightarrow> set (requests st) \<subseteq> set (requests st')"
  unfolding steady_def by (metis set_take_subset)

lemma page_loop_lists:
  "(ListObjects prefix, files_read st) \<in> set (requests (page_loop E N prefix pages st))"
proof -
  let ?s = "sent (ListObjects prefix) st"
  have 0: "(ListObjects prefix, files_read st) \<in> set (requests ?s)"
    by simp
  have 1: "(ListObjects prefix, files_read st) \<in> set (requests (obj_loop E N keys ?s))"
    for keys
    using 0 steady_requests [OF obj_loop_steady, of ?s E N keys] by blast
  have 2: "(ListObjects prefix, files_read st)
      \<in> set (requests (page_loop E N prefix rest (obj_loop E N keys ?s)))" for keys rest
    using 1 [of keys] steady_requests [OF page_loop_steady, of "obj_loop E N keys ?s" E N prefix rest]
    by blast
  show ?thesis
  proof (cases pages)
    case (LastPage page)
    with 1 show ?thesis by simp
  next
    case (NextPage page rest)
    with 1 2 show ?thesis by (simp add: Let_def)
  next
    case (ListError e)
    then show ?thesis by simp
  qed
qed

lemma prefix_loop_lists:
  assumes "\<not> halted N (prefix_loop E N prefixes st)" "p \<in> set prefixes"
  shows "\<exists>n. (ListObjects p, n) \<in> set (requests (prefix_loop E N prefixes st))"
  using assms
proof (induction prefixes arbitrary: st)
  case Nil
  then show ?case by simp
next
  case (Cons q qs)
  let ?st' = "page_loop E N q (paginate E q) st"
  have nh: "\<not> halted N ?st'"
  proof
    assume "halted N ?st'"
    then have "prefix_loop E N (q # qs) st = ?st'" by (simp add: Let_def)
    with Cons.prems(1) \<open>halted N ?st'\<close> show False by simp
  qed
  then have res: "prefix_loop E N (q # qs) st = prefix_loop E N qs ?st'"
    by (simp add: Let_def)
  show ?case
  proof (cases "p = q")
    case True
    have "(ListObjects q, files_read st) \<in> set (requests ?st')" by (rule page_loop_lists)
    moreover have "set (requests ?st') \<subseteq> set (requests (prefix_loop E N qs ?st'))"
      by (intro steady_requests prefix_loop_steady)
    ultimately show ?thesis unfolding res True by blast
  next
    case False
    with Cons.prems(2) have "p \<in> set qs" by simp
    moreover from Cons.prems(1) have "\<not> halted N (prefix_loop E N qs ?st')"
      unfolding res .
    ultimately show ?thesis unfolding res by (rule Cons.IH [rotated])
  qed
qed

text \<open>
  Claim C9, as the code has it. For every timeframe, exchange, normalised symbol and day,
  exactly two candidate prefixes are produced: the path template
  \<open>processed/timeframe=../exchange=../symbol=../year=../month=MM/day=DD/\<close> rendered once
  with \<open>=\<close> and once with \<open>%3D\<close> between each key and its value, the unencoded one
  first, and the two differ. Month and day of a date are within 1..12 and 1..31 and are
  written with two decimal digits, a leading zero included. The day loop is the prefix
  loop over the candidates of all days in order; so the candidates are probed day by
  day, unencoded first, as long as the traversal is not halted, and a traversal that ends
  without being halted (budget not reached, no store failure) has listed both prefixes of
  every day.
\<close>

theorem candidate_prefixes:
  "prefixes_to_try timeframe exchange symbol day
     = [path_template ''='' timeframe exchange symbol (ord2ymd day),
        path_template ''%3D'' timeframe exchange symbol (ord2ymd day)]
   \<and> path_template ''='' timeframe exchange symbol (ord2ymd day)
       \<noteq> path_template ''%3D'' timeframe exchange symbol (ord2ymd day)
   \<and> (case ord2ymd day of (Y, m, d) \<Rightarrow>
         1 \<le> m \<and> m \<le> 12 \<and> 1 \<le> d \<and> d \<le> 31
         \<and> fmt_02d m = [digit_char (nat m div 10), digit_char (nat m mod 10)]
         \<and> fmt_02d d = [digit_char (nat d div 10), digit_char (nat d mod 10)])
   \<and> day_loop E N timeframe exchange symbol days st
       = prefix_loop E N (concat (map (prefixes_to_try timeframe exchange symbol) days)) st
   \<and> (\<not> halted N (day_loop E N timeframe exchange symbol days st) \<longrightarrow>
        (\<forall>d \<in> set days. \<forall>p \<in> set (prefixes_to_try timeframe exchange symbol d).
           \<exists>n. (ListObjects p, n)
                  \<in> set (requests (day_loop E N timeframe exchange symbol days st))))"
proof -
  have digits: "case ord2ymd day of (Y, m, d) \<Rightarrow>
         1 \<le> m \<and> m \<le> 12 \<and> 1 \<le> d \<and> d \<le> 31
         \<and> fmt_02d m = [digit_char (nat m div 10), digit_char (nat m mod 10)]
         \<and> fmt_02d d = [digit_char (nat d div 10), digit_char (nat d mod 10)]"
    using ord2ymd_bounds [of day] by (auto simp: fmt_02d_two_digits split: prod.splits)
  have all: "\<exists>n. (ListObjects p, n)
                  \<in> set (requests (day_loop E N timeframe exchange symbol days st))"
    if "\<not> halted N (day_loop E N timeframe exchange symbol days st)"
      "d \<in> set days" "p \<in> set (prefixes_to_try timeframe exchange symbol d)" for d p
  proof -
    from that(2,3)
    have "p \<in> set (concat (map (prefixes_to_try timeframe exchange symbol) days))" by auto
    with that(1) show ?thesis unfolding day_loop_flat by (rule prefix_loop_lists)
  qed
  from prefixes_to_try_templates path_templates_differ digits day_loop_flat all
  show ?thesis by blast
qed


lemma example_prefixes:
  "prefixes_to_try ''15m'' ''NSE'' ''NSE_CIPLA-EQ'' 739923
   = [''processed/timeframe=15m/exchange=NSE/symbol=NSE_CIPLA-EQ/year=2026/month=11/day=03/'',
      ''processed/timeframe%3D15m/exchange%3DNSE/symbol%3DNSE_CIPLA-EQ/year%3D2026/month%3D11/day%3D03/'']"
  "prefixes_to_try ''15m'' ''NSE'' ''NSE_CIPLA-EQ'' 739924
   = [''processed/timeframe=15m/exchange=NSE/symbol=NSE_CIPLA-EQ/year=2026/month=11/day=04/'',
      ''processed/timeframe%3D15m/exchange%3DNSE/symbol%3DNSE_CIPLA-EQ/year%3D2026/month%3D11/day%3D04/'']"
proof -
  have "ord2ymd 739923 = (2026, 11, 3)" "ord2ymd 739924 = (2026, 11, 4)"
    by (simp_all add: ord2ymd_def Let_def days_before_month_def days_in_month_def)
  then show
    "prefixes_to_try ''15m'' ''NSE'' ''NSE_CIPLA-EQ'' 739923
     = [''processed/timeframe=15m/exchange=NSE/symbol=NSE_CIPLA-EQ/year=2026/month=11/day=03/'',
        ''processed/timeframe%3D15m/exchange%3DNSE/symbol%3DNSE_CIPLA-EQ/year%3D2026/month%3D11/day%3D03/'']"
    "prefixes_to_try ''15m'' ''NSE'' ''NSE_CIPLA-EQ'' 739924
     = [''processed/timeframe=15m/exchange=NSE/symbol=NSE_CIPLA-EQ/year=2026/month=11/day=04/'',
        ''processed/timeframe%3D15m/exchange%3DNSE/symbol%3DNSE_CIPLA-EQ/year%3D2026/month%3D11/day%3D04/'']"
    by (simp_all add: prefixes_to_try_def template_unencoded_def template_encoded_def str_int_def
        fmt_02d_def dec.simps digit_char_def)
qed

lemma example_request:
  "parse_params ''CIPLA,15m,1d'' = Inr (''CIPLA'', ''15m'', ''1d'')"
  "parse_range \<lparr>ordinal = 739924, micros = 0\<rparr> ''1d'' = Inr \<lparr>ordinal = 739923, micros = 0\<rparr>"
  "date_iter \<lparr>ordinal = 739923, micros = 0\<rparr> \<lparr>ordinal = 739924, micros = 0\<rparr> = [739923, 739924]"
  "normalize_symbol_for_bucket ''CIPLA'' ''NSE'' = ''NSE_CIPLA-EQ''"
proof -
  show "parse_params ''CIPLA,15m,1d'' = Inr (''CIPLA'', ''15m'', ''1d'')"
    by (simp add: parse_params_def strip_def isspace_def)
  show "parse_range \<lparr>ordinal = 739924, micros = 0\<rparr> ''1d''
        = Inr \<lparr>ordinal = 739923, micros = 0\<rparr>"
    by (simp add: parse_range_def lower_char_def py_int_def int_strip_def int_isspace_def
        strip_def isspace_def is_digit_def
        int_max_str_digits_def digit_val_def datetime_sub_def timedelta_days_def
        MINORDINAL_def MAXORDINAL_def)
  show "date_iter \<lparr>ordinal = 739923, micros = 0\<rparr> \<lparr>ordinal = 739924, micros = 0\<rparr>
        = [739923, 739924]"
    by (simp add: date_iter_def upt_rec)
  show "normalize_symbol_for_bucket ''CIPLA'' ''NSE'' = ''NSE_CIPLA-EQ''"
    by (simp add: normalize_symbol_for_bucket_def startswith_def endswith_def upper_def
        upper_char_def strip_def isspace_def)
qed

text \<open>
  Two days over an empty store, budget 50: the four prefixes are listed in order.
\<close>

theorem candidate_prefixes_witness:
  "\<not> halted 50
       (day_loop
          \<lparr>paginate = (\<lambda>p. LastPage None), get_object = (\<lambda>k. Inl NoSuchKey),
           read_table = (\<lambda>b. None), to_timestamp = (\<lambda>v :: unit. None),
      datetime_convertible = (\<lambda>col. True)\<rparr>
          50 ''15m'' ''NSE'' ''NSE_CIPLA-EQ'' [739923, 739924] init_state)
   \<and> map fst (requests
       (day_loop
          \<lparr>paginate = (\<lambda>p. LastPage None), get_object = (\<lambda>k. Inl NoSuchKey),
           read_table = (\<lambda>b. None), to_timestamp = (\<lambda>v :: unit. None),
      datetime_convertible = (\<lambda>col. True)\<rparr>
          50 ''15m'' ''NSE'' ''NSE_CIPLA-EQ'' [739923, 739924] init_state))
     = [ListObjects
          ''processed/timeframe=15m/exchange=NSE/symbol=NSE_CIPLA-EQ/year=2026/month=11/day=03/'',
        ListObjects
          ''processed/timeframe%3D15m/exchange%3DNSE/symbol%3DNSE_CIPLA-EQ/year%3D2026/month%3D11/day%3D03/'',
        ListObjects
          ''processed/timeframe=15m/exchange=NSE/symbol=NSE_CIPLA-EQ/year=2026/month=11/day=04/'',
        ListObjects
          ''processed/timeframe%3D15m/exchange%3DNSE/symbol%3DNSE_CIPLA-EQ/year%3D2026/month%3D11/day%3D04/'']"
proof -
  let ?E = "\<lparr>paginate = (\<lambda>p. LastPage None), get_object = (\<lambda>k. Inl NoSuchKey),
           read_table = (\<lambda>b. None), to_timestamp = (\<lambda>v :: unit. None),
      datetime_convertible = (\<lambda>col. True)\<rparr>"
  let ?run = "day_loop ?E 50 ''15m'' ''NSE'' ''NSE_CIPLA-EQ'' [739923, 739924] init_state"
  have flat: "?run = prefix_loop ?E 50
      (concat (map (prefixes_to_try ''15m'' ''NSE'' ''NSE_CIPLA-EQ'') [739923, 739924])) init_state"
    using candidate_prefixes [of "''15m''" "''NSE''" "''NSE_CIPLA-EQ''" 739923 ?E 50
        "[739923, 739924]" init_state]
    by blast
  show ?thesis
    unfolding flat
    by (simp add: example_prefixes init_state_def contents_def sent_def halted_def Let_def)
qed

lemma budget_one_run:
  "snd (get_price
        \<lparr>paginate = (\<lambda>p. LastPage (Some [''a.parquet'', ''b.parquet''])),
         get_object = (\<lambda>k. Inr k),
         read_table = (\<lambda>b. Some \<lparr>columns = [''close''], records = [[(''close'', Raw b)]]\<rparr>),
         to_timestamp = (\<lambda>v. None),
      datetime_convertible = (\<lambda>col. True)\<rparr>
        \<lparr>ordinal = 739924, micros = 0\<rparr> ''CIPLA,15m,1d'' ''NSE'' 1)
     = \<lparr>rows = [\<lparr>columns = [''close''], records = [[(''close'', Raw ''a.parquet'')]]\<rparr>],
        files_read = 1, printed = [],
        requests = [(ListObjects
            ''processed/timeframe=15m/exchange=NSE/symbol=NSE_CIPLA-EQ/year=2026/month=11/day=03/'',
           0), (GetObject ''a.parquet'', 0)],
        raised = None\<rparr>"
  by (simp add: get_price_def example_request example_prefixes init_state_def contents_def
      sent_def halted_def endswith_def lower_def lower_char_def read_parquet_bytes_def Let_def
      candidates_def concat_frames_def union_columns_def reindex_def)

text \<open>
  "Both are probed for every day" fails once the budget is reached: with budget 1 and a
  decodable object under the first prefix, the encoded variant of the first day is never
  listed, nor is any prefix of the second day.
\<close>

theorem second_variant_skipped_counterexample:
  "prefixes_to_try ''15m'' ''NSE'' ''NSE_CIPLA-EQ'' 739923
     = [''processed/timeframe=15m/exchange=NSE/symbol=NSE_CIPLA-EQ/year=2026/month=11/day=03/'',
        ''processed/timeframe%3D15m/exchange%3DNSE/symbol%3DNSE_CIPLA-EQ/year%3D2026/month%3D11/day%3D03/'']
   \<and> map fst (requests (snd (get_price
        \<lparr>paginate = (\<lambda>p. LastPage (Some [''a.parquet'', ''b.parquet''])),
         get_object = (\<lambda>k. Inr k),
         read_table = (\<lambda>b. Some \<lparr>columns = [''close''], records = [[(''close'', Raw b)]]\<rparr>),
         to_timestamp = (\<lambda>v. None),
      datetime_convertible = (\<lambda>col. True)\<rparr>
        \<lparr>ordinal = 739924, micros = 0\<rparr> ''CIPLA,15m,1d'' ''NSE'' 1)))
     = [ListObjects
          ''processed/timeframe=15m/exchange=NSE/symbol=NSE_CIPLA-EQ/year=2026/month=11/day=03/'',
        GetObject ''a.parquet'']"
  by (simp add: example_prefixes budget_one_run)

subsection \<open>The result of a listing request\<close>

lemma get_price_traversed:
  assumes "parse_params params = Inr (sym', timeframe, rng)"
    and "parse_range now rng = Inr start"
  shows "snd (get_price E now params exchange N)
         = day_loop E N timeframe exchange (normalize_symbol_for_bucket sym' exchange)
             (date_iter start now) init_state"
  using assms by (simp add: get_price_def Let_def split: option.splits sum.splits)

lemma get_price_final_state:
  "steady init_state (snd (get_price E now params exchange N))"
  using get_price_state [of E now params exchange N]
  by (auto simp: steady_refl day_loop_steady)

lemma get_price_rows:
  "int (length (rows (snd (get_price E now params exchange N))))
   = files_read (snd (get_price E now params exchange N))"
  using get_price_final_state [of E now params exchange N]
  by (simp add: steady_def init_state_def)

lemma get_price_success_rows:
  assumes "fst (get_price E now params exchange N) = Inr resp"
  shows "rows (snd (get_price E now params exchange N)) \<noteq> []"
  using assms
  by (auto simp: get_price_def Let_def split: sum.splits option.splits if_splits prod.splits)

text \<open>
  Claim C7, as the code has it. On the listing path a request in which no table was decoded never succeeds:
  it ends in a failure. When the request parsed, the traversal ended without a store
  failure and no table was decoded over all days and both variants, that failure is the
  404 "No parquet files found for query." Conversely, every successful response rests on
  at least one decoded table.
\<close>

theorem no_data_found:
  "(files_read (snd (get_price E now params exchange N)) = 0
      \<longrightarrow> (\<exists>e. fst (get_price E now params exchange N) = Inl e))
   \<and> (parse_params params = Inr (sym', timeframe, rng) \<and> parse_range now rng = Inr start
        \<and> raised (snd (get_price E now params exchange N)) = None
        \<and> files_read (snd (get_price E now params exchange N)) = 0
      \<longrightarrow> fst (get_price E now params exchange N)
            = Inl (HTTPException 404 ''No parquet files found for query.''))
   \<and> (\<forall>resp. fst (get_price E now params exchange N) = Inr resp
        \<longrightarrow> rows (snd (get_price E now params exchange N)) \<noteq> []
            \<and> 0 < files_read (snd (get_price E now params exchange N)))"
proof -
  let ?g = "get_price E now params exchange N"
  note rows = get_price_rows [of E now params exchange N]
  have success: "rows (snd ?g) \<noteq> [] \<and> 0 < files_read (snd ?g)" if "fst ?g = Inr resp" for resp
  proof -
    from that have "rows (snd ?g) \<noteq> []" by (rule get_price_success_rows)
    with rows show ?thesis by (cases "rows (snd ?g)") auto
  qed
  have never: "\<exists>e. fst ?g = Inl e" if "files_read (snd ?g) = 0"
  proof (cases "fst ?g")
    case (Inl e)
    then show ?thesis by blast
  next
    case (Inr resp)
    with success [of resp] that show ?thesis by simp
  qed
  have nodata: "fst ?g = Inl (HTTPException 404 ''No parquet files found for query.'')"
    if p: "parse_params params = Inr (sym', timeframe, rng)"
      and r: "parse_range now rng = Inr start"
      and ok: "raised (snd ?g) = None" and zero: "files_read (snd ?g) = 0"
  proof -
    let ?st = "day_loop E N timeframe exchange (normalize_symbol_for_bucket sym' exchange)
             (date_iter start now) init_state"
    have st: "snd ?g = ?st" using p r by (rule get_price_traversed)
    from rows zero have "rows ?st = []" by (simp add: st)
    moreover from ok have "raised ?st = None" by (simp add: st)
    ultimately show ?thesis
      using p r by (simp add: get_price_def Let_def)
  qed
  from never nodata success show ?thesis by blast
qed


text \<open>
  An empty store: every prefix lists nothing, and the request ends with the 404 error.
\<close>

theorem no_data_found_witness:
  "parse_params ''CIPLA,15m,1d'' = Inr (''CIPLA'', ''15m'', ''1d'')
   \<and> parse_range \<lparr>ordinal = 739924, micros = 0\<rparr> ''1d'' = Inr \<lparr>ordinal = 739923, micros = 0\<rparr>
   \<and> raised (snd (get_price
        \<lparr>paginate = (\<lambda>p. LastPage None), get_object = (\<lambda>k. Inl NoSuchKey),
         read_table = (\<lambda>b. None), to_timestamp = (\<lambda>v :: unit. None),
      datetime_convertible = (\<lambda>col. True)\<rparr>
        \<lparr>ordinal = 739924, micros = 0\<rparr> ''CIPLA,15m,1d'' ''NSE'' 50)) = None
   \<and> files_read (snd (get_price
        \<lparr>paginate = (\<lambda>p. LastPage None), get_object = (\<lambda>k. Inl NoSuchKey),
         read_table = (\<lambda>b. None), to_timestamp = (\<lambda>v :: unit. None),
      datetime_convertible = (\<lambda>col. True)\<rparr>
        \<lparr>ordinal = 739924, micros = 0\<rparr> ''CIPLA,15m,1d'' ''NSE'' 50)) = 0
   \<and> fst (get_price
        \<lparr>paginate = (\<lambda>p. LastPage None), get_object = (\<lambda>k. Inl NoSuchKey),
         read_table = (\<lambda>b. None), to_timestamp = (\<lambda>v :: unit. None),
      datetime_convertible = (\<lambda>col. True)\<rparr>
        \<lparr>ordinal = 739924, micros = 0\<rparr> ''CIPLA,15m,1d'' ''NSE'' 50)
       = Inl (HTTPException 404 ''No parquet files found for query.'')"
proof -
  let ?E = "\<lparr>paginate = (\<lambda>p. LastPage None), get_object = (\<lambda>k. Inl NoSuchKey),
         read_table = (\<lambda>b. None), to_timestamp = (\<lambda>v :: unit. None),
      datetime_convertible = (\<lambda>col. True)\<rparr>"
  let ?now = "\<lparr>ordinal = 739924, micros = 0\<rparr>"
  let ?g = "get_price ?E ?now ''CIPLA,15m,1d'' ''NSE'' 50"
  have st: "raised (snd ?g) = None \<and> files_read (snd ?g) = 0"
    by (simp add: get_price_def example_request example_prefixes init_state_def contents_def
        sent_def halted_def Let_def)
  from no_data_found [of ?E ?now "''CIPLA,15m,1d''" "''NSE''" 50 "''CIPLA''" "''15m''" "''1d''"
      "\<lparr>ordinal = 739923, micros = 0\<rparr>"] example_request st
  show ?thesis by blast
qed

text \<open>
  "Never an empty-but-successful result" fails for a table that decodes but has no rows:
  it is counted, \<open>rows\<close> is not empty, and the response is a success with no rows.
\<close>

theorem empty_table_success_counterexample:
  "get_price
     \<lparr>paginate = (\<lambda>p. LastPage (Some [''a.parquet''])),
      get_object = (\<lambda>k. Inr k),
      read_table = (\<lambda>b. Some \<lparr>columns = [''close''], records = []\<rparr>),
      to_timestamp = (\<lambda>v :: unit. None),
      datetime_convertible = (\<lambda>col. True)\<rparr>
     \<lparr>ordinal = 739924, micros = 0\<rparr> ''CIPLA,15m,1d'' ''NSE'' 1
   = (Inr \<lparr>resp_symbol = ''CIPLA'', resp_symbol_partition = ''NSE_CIPLA-EQ'',
           resp_timeframe = ''15m'', resp_range = ''1d'', rows_returned = 0, data = []\<rparr>,
      \<lparr>rows = [\<lparr>columns = [''close''], records = []\<rparr>], files_read = 1, printed = [],
       requests = [(ListObjects
            ''processed/timeframe=15m/exchange=NSE/symbol=NSE_CIPLA-EQ/year=2026/month=11/day=03/'',
           0), (GetObject ''a.parquet'', 0)],
       raised = None\<rparr>)"
  by (simp add: get_price_def example_request example_prefixes init_state_def contents_def
      sent_def halted_def endswith_def lower_def lower_char_def read_parquet_bytes_def Let_def
      candidates_def concat_frames_def union_columns_def reindex_def)

subsection \<open>Decode errors\<close>

lemma parse_params_failure:
  "parse_params params = Inl f \<Longrightarrow> \<exists>code detail. f = HTTPException code detail"
  by (auto simp: parse_params_def split: list.splits)

lemma datetime_sub_failure: "datetime_sub t k = Inl f \<Longrightarrow> f = Unhandled OverflowError"
  by (auto simp: datetime_sub_def timedelta_days_def Let_def split: if_splits)

lemma parse_range_failure:
  "parse_range now rng = Inl f \<Longrightarrow>
   f = Unhandled IndexError \<or> f = Unhandled OverflowError
   \<or> (\<exists>code detail. f = HTTPException code detail)"
  by (auto simp: parse_range_def Let_def split: if_splits option.splits
      dest: datetime_sub_failure)

lemma time_filter_aware:
  "datetime_convertible E (column big cand) \<Longrightarrow>
   time_filter E start now cand big = Inl TypeError"
  by (simp add: time_filter_def series_cmp_def to_datetime_utc_def to_datetime_scalar_def
      Let_def)

lemma time_filter_naive:
  assumes "\<not> datetime_convertible E (column big cand)"
  shows "\<exists>big'. time_filter E start now cand big = Inr big' \<and> records big' = []"
proof -
  let ?col = "to_datetime_utc E (column big cand)"
  have col: "?col = \<lparr>tz = Naive, stamps = map (\<lambda>x. None) (column big cand)\<rparr>"
    using assms by (simp add: to_datetime_utc_def)
  have cmp: "series_cmp rel ?col (to_datetime_scalar t)
             = Inr (map (\<lambda>x. False) (column big cand))" for rel t
    unfolding col by (simp add: series_cmp_def to_datetime_scalar_def comp_def)
  have none: "filter (\<lambda>(r, keep). keep)
      (zip rs (map (\<lambda>(a, b). a \<and> b) (zip (map (\<lambda>x. False) xs) bs))) = []"
    for rs :: "'b list" and xs :: "'c list" and bs
    by (simp add: zip_map1 zip_map2 filter_map comp_def case_prod_unfold)
  have "time_filter E start now cand big
        = Inr ((set_column big cand ?col)\<lparr>records := []\<rparr>)"
    unfolding time_filter_def Let_def cmp by (simp add: none)
  then show ?thesis by simp
qed

lemma time_filter_failure: "time_filter E start now cand big = Inl e \<Longrightarrow> e = TypeError"
  by (auto simp: time_filter_def series_cmp_def Let_def split: if_splits sum.splits)

lemma filter_loop_failure: "filter_loop E start now cands big = Inl e \<Longrightarrow> e = TypeError"
  by (induction cands) (auto dest: time_filter_failure split: if_splits)

lemma filter_loop_no_candidate:
  "\<forall>cand \<in> set cands. cand \<notin> set (columns big) \<Longrightarrow>
   filter_loop E start now cands big = Inr big"
  by (induction cands) simp_all

lemma filter_loop_first_candidate:
  "cand \<in> set (columns big) \<Longrightarrow> \<forall>c \<in> set before. c \<notin> set (columns big) \<Longrightarrow>
   filter_loop E start now (before @ cand # after) big = time_filter E start now cand big"
  by (induction before) simp_all

lemma get_price_raised:
  "raised (snd (get_price E now params exchange N)) = None
   \<or> (\<exists>e. raised (snd (get_price E now params exchange N)) = Some (Unhandled (S3Error e)))"
  using get_price_final_state [of E now params exchange N]
  by (simp add: steady_def init_state_def)

lemma get_price_no_decode_error:
  "fst (get_price E now params exchange N) \<noteq> Inl (Unhandled ArrowInvalid)"
proof (cases "parse_params params")
  case (Inl f)
  with parse_params_failure [OF Inl] show ?thesis by (auto simp: get_price_def)
next
  case p: (Inr t)
  obtain sym' timeframe rng where t: "t = (sym', timeframe, rng)" by (cases t)
  show ?thesis
  proof (cases "parse_range now rng")
    case (Inl f)
    with parse_range_failure [OF Inl] p t show ?thesis by (auto simp: get_price_def)
  next
    case r: (Inr start)
    let ?st = "day_loop E N timeframe exchange (normalize_symbol_for_bucket sym' exchange)
             (date_iter start now) init_state"
    have st: "snd (get_price E now params exchange N) = ?st"
      using p [unfolded t] r by (rule get_price_traversed)
    from get_price_raised [of E now params exchange N]
    have "raised ?st = None \<or> (\<exists>e. raised ?st = Some (Unhandled (S3Error e)))"
      unfolding st .
    then show ?thesis
      using p t r
      by (auto simp: get_price_def Let_def split: option.splits sum.splits
          dest: filter_loop_failure)
  qed
qed

lemma parquet_keys_Cons:
  "parquet_keys (key # keys)
   = (if endswith (lower key) ''.parquet'' then key # parquet_keys keys else parquet_keys keys)"
  by (simp add: parquet_keys_def)

lemma obj_loop_batch:
  assumes "\<forall>k \<in> set (parquet_keys keys). \<exists>b. get_object E k = Inr b"
    and "files_read st + int (length (parquet_keys keys)) \<le> N"
  shows "rows (obj_loop E N keys st) = rows st @ List.map_filter (decoded E) (parquet_keys keys)
       \<and> files_read (obj_loop E N keys st)
           = files_read st + int (length (List.map_filter (decoded E) (parquet_keys keys)))
       \<and> printed (obj_loop E N keys st)
           = printed st @ map (\<lambda>k. (k, ArrowInvalid))
                            (filter (\<lambda>k. decoded E k = None) (parquet_keys keys))
       \<and> raised (obj_loop E N keys st) = raised st"
  using assms
proof (induction keys arbitrary: st)
  case Nil
  show ?case by (simp add: parquet_keys_def List.map_filter_simps)
next
  case (Cons key keys)
  show ?case
  proof (cases "endswith (lower key) ''.parquet''")
    case False
    with Cons show ?thesis by (simp add: parquet_keys_Cons)
  next
    case pq: True
    with Cons.prems obtain b where b: "get_object E key = Inr b"
      by (auto simp: parquet_keys_Cons)
    from pq Cons.prems have below: "\<not> N \<le> files_read st"
      and rest: "\<forall>k \<in> set (parquet_keys keys). \<exists>b. get_object E k = Inr b"
      by (simp_all add: parquet_keys_Cons)
    let ?st1 = "sent (GetObject key) st"
    show ?thesis
    proof (cases "read_table E b")
      case None
      let ?st2 = "?st1\<lparr>printed := printed ?st1 @ [(key, ArrowInvalid)]\<rparr>"
      have dec: "decoded E key = None" by (simp add: decoded_def b None)
      have step: "obj_loop E N (key # keys) st = obj_loop E N keys ?st2"
        using pq below b None by (simp add: read_parquet_bytes_def Let_def)
      have "files_read ?st2 + int (length (parquet_keys keys)) \<le> N"
        using pq Cons.prems(2) by (simp add: parquet_keys_Cons)
      from Cons.IH [OF rest this] show ?thesis
        unfolding step by (simp add: parquet_keys_Cons pq dec List.map_filter_simps)
    next
      case (Some df)
      let ?st2 = "?st1\<lparr>rows := rows ?st1 @ [df], files_read := files_read ?st1 + 1\<rparr>"
      have dec: "decoded E key = Some df" by (simp add: decoded_def b Some)
      have step: "obj_loop E N (key # keys) st = obj_loop E N keys ?st2"
        using pq below b Some by (simp add: read_parquet_bytes_def Let_def)
      have "files_read ?st2 + int (length (parquet_keys keys)) \<le> N"
        using pq Cons.prems(2) by (simp add: parquet_keys_Cons)
      from Cons.IH [OF rest this] show ?thesis
        unfolding step by (simp add: parquet_keys_Cons pq dec List.map_filter_simps)
    qed
  qed
qed

text \<open>
  Claim C2, as the code has it, on the listing path. An object that passes the filter,
  is fetched within the budget and fails to decode is skipped: the loop goes on with the
  remaining keys of the page in a state that differs only by the request sent and the
  line printed for the key; \<open>rows\<close> and \<open>files_read\<close> are unchanged. Over a page whose
  objects can all be fetched and which the budget covers, \<open>rows\<close> receives exactly the
  tables that decode, in order, \<open>files_read\<close> grows by their number, and one line is
  printed for each object that does not decode. No response of \<^verbatim>\<open>get_price\<close> is the
  decode error.
\<close>

theorem decode_errors_recovered:
  "fst (get_price E now params exchange N) \<noteq> Inl (Unhandled ArrowInvalid)
   \<and> (endswith (lower key) ''.parquet'' \<and> files_read st < N
        \<and> get_object E key = Inr b \<and> read_table E b = None
      \<longrightarrow> obj_loop E N (key # keys) st
            = obj_loop E N keys
                ((sent (GetObject key) st)\<lparr>printed := printed st @ [(key, ArrowInvalid)]\<rparr>))
   \<and> ((\<forall>k \<in> set (parquet_keys ks). \<exists>b. get_object E k = Inr b)
        \<and> files_read st + int (length (parquet_keys ks)) \<le> N
      \<longrightarrow> rows (obj_loop E N ks st) = rows st @ List.map_filter (decoded E) (parquet_keys ks)
          \<and> files_read (obj_loop E N ks st)
              = files_read st + int (length (List.map_filter (decoded E) (parquet_keys ks)))
          \<and> printed (obj_loop E N ks st)
              = printed st @ map (\<lambda>k. (k, ArrowInvalid))
                               (filter (\<lambda>k. decoded E k = None) (parquet_keys ks))
          \<and> raised (obj_loop E N ks st) = raised st)"
proof -
  have step: "obj_loop E N (key # keys) st
      = obj_loop E N keys
          ((sent (GetObject key) st)\<lparr>printed := printed st @ [(key, ArrowInvalid)]\<rparr>)"
    if "endswith (lower key) ''.parquet''" "files_read st < N"
      "get_object E key = Inr b" "read_table E b = None"
    using that by (simp add: read_parquet_bytes_def Let_def)
  from get_price_no_decode_error [of E now params exchange N] step
    obj_loop_batch [of ks E st N]
  show ?thesis by blast
qed


lemma batch_run:
  "get_price
     \<lparr>paginate = (\<lambda>p. if p = ''processed/timeframe=15m/exchange=NSE/symbol=NSE_CIPLA-EQ/year=2026/month=11/day=03/''
                      then LastPage (Some [''a.parquet'', ''b.parquet'', ''c.parquet'',
                                           ''d.parquet'', ''e.parquet''])
                      else LastPage None),
      get_object = (\<lambda>k. Inr k),
      read_table = (\<lambda>b. if b = ''c.parquet'' then None
                        else Some \<lparr>columns = [''close''], records = [[(''close'', Raw b)]]\<rparr>),
      to_timestamp = (\<lambda>v. None),
      datetime_convertible = (\<lambda>col. True)\<rparr>
     \<lparr>ordinal = 739924, micros = 0\<rparr> ''CIPLA,15m,1d'' ''NSE'' 50
   = (Inr \<lparr>resp_symbol = ''CIPLA'', resp_symbol_partition = ''NSE_CIPLA-EQ'',
           resp_timeframe = ''15m'', resp_range = ''1d'', rows_returned = 4,
           data = [[(''close'', Raw ''a.parquet'')], [(''close'', Raw ''b.parquet'')],
                   [(''close'', Raw ''d.parquet'')], [(''close'', Raw ''e.parquet'')]]\<rparr>,
      \<lparr>rows = [\<lparr>columns = [''close''], records = [[(''close'', Raw ''a.parquet'')]]\<rparr>,
               \<lparr>columns = [''close''], records = [[(''close'', Raw ''b.parquet'')]]\<rparr>,
               \<lparr>columns = [''close''], records = [[(''close'', Raw ''d.parquet'')]]\<rparr>,
               \<lparr>columns = [''close''], records = [[(''close'', Raw ''e.parquet'')]]\<rparr>],
       files_read = 4,
       printed = [(''c.parquet'', ArrowInvalid)],
       requests =
         [(ListObjects ''processed/timeframe=15m/exchange=NSE/symbol=NSE_CIPLA-EQ/year=2026/month=11/day=03/'', 0),
          (GetObject ''a.parquet'', 0), (GetObject ''b.parquet'', 1), (GetObject ''c.parquet'', 2),
          (GetObject ''d.parquet'', 2), (GetObject ''e.parquet'', 3),
          (ListObjects ''processed/timeframe%3D15m/exchange%3DNSE/symbol%3DNSE_CIPLA-EQ/year%3D2026/month%3D11/day%3D03/'', 4),
          (ListObjects ''processed/timeframe=15m/exchange=NSE/symbol=NSE_CIPLA-EQ/year=2026/month=11/day=04/'', 4),
          (ListObjects ''processed/timeframe%3D15m/exchange%3DNSE/symbol%3DNSE_CIPLA-EQ/year%3D2026/month%3D11/day%3D04/'', 4)],
       raised = None\<rparr>)"
  by (simp add: get_price_def example_request example_prefixes init_state_def contents_def
      sent_def halted_def endswith_def lower_def lower_char_def read_parquet_bytes_def Let_def
      candidates_def concat_frames_def union_columns_def reindex_def)

text \<open>
  A page of five objects, the third corrupt: the four tables that decode are returned,
  \<open>files_read\<close> is 4 and one line is printed for the corrupt key.
\<close>

theorem decode_errors_recovered_witness:
  "(let E = \<lparr>paginate = (\<lambda>p. if p = ''processed/timeframe=15m/exchange=NSE/symbol=NSE_CIPLA-EQ/year=2026/month=11/day=03/''
                      then LastPage (Some [''a.parquet'', ''b.parquet'', ''c.parquet'',
                                           ''d.parquet'', ''e.parquet''])
                      else LastPage None),
             get_object = (\<lambda>k. Inr k),
             read_table = (\<lambda>b. if b = ''c.parquet'' then None
                        else Some \<lparr>columns = [''close''], records = [[(''close'', Raw b)]]\<rparr>),
             to_timestamp = (\<lambda>v :: string. None :: int option),
      datetime_convertible = (\<lambda>col. True)\<rparr>;
        batch = [''a.parquet'', ''b.parquet'', ''c.parquet'', ''d.parquet'', ''e.parquet''];
        g = get_price E \<lparr>ordinal = 739924, micros = 0\<rparr> ''CIPLA,15m,1d'' ''NSE'' 50
    in parquet_keys batch = batch
       \<and> map (get_object E) batch = map Inr batch
       \<and> read_table E ''c.parquet'' = None
       \<and> files_read init_state + int (length (parquet_keys batch)) \<le> 50
       \<and> rows (obj_loop E 50 batch init_state)
           = [\<lparr>columns = [''close''], records = [[(''close'', Raw ''a.parquet'')]]\<rparr>,
              \<lparr>columns = [''close''], records = [[(''close'', Raw ''b.parquet'')]]\<rparr>,
              \<lparr>columns = [''close''], records = [[(''close'', Raw ''d.parquet'')]]\<rparr>,
              \<lparr>columns = [''close''], records = [[(''close'', Raw ''e.parquet'')]]\<rparr>]
       \<and> files_read (obj_loop E 50 batch init_state) = 4
       \<and> printed (obj_loop E 50 batch init_state) = [(''c.parquet'', ArrowInvalid)]
       \<and> fst g = Inr \<lparr>resp_symbol = ''CIPLA'', resp_symbol_partition = ''NSE_CIPLA-EQ'',
                       resp_timeframe = ''15m'', resp_range = ''1d'', rows_returned = 4,
                       data = [[(''close'', Raw ''a.parquet'')], [(''close'', Raw ''b.parquet'')],
                               [(''close'', Raw ''d.parquet'')], [(''close'', Raw ''e.parquet'')]]\<rparr>
       \<and> fst g \<noteq> Inl (Unhandled ArrowInvalid))"
proof -
  let ?E = "\<lparr>paginate = (\<lambda>p. if p = ''processed/timeframe=15m/exchange=NSE/symbol=NSE_CIPLA-EQ/year=2026/month=11/day=03/''
                      then LastPage (Some [''a.parquet'', ''b.parquet'', ''c.parquet'',
                                           ''d.parquet'', ''e.parquet''])
                      else LastPage None),
             get_object = (\<lambda>k. Inr k),
             read_table = (\<lambda>b. if b = ''c.parquet'' then None
                        else Some \<lparr>columns = [''close''], records = [[(''close'', Raw b)]]\<rparr>),
             to_timestamp = (\<lambda>v :: string. None :: int option),
      datetime_convertible = (\<lambda>col. True)\<rparr>"
  let ?batch = "[''a.parquet'', ''b.parquet'', ''c.parquet'', ''d.parquet'', ''e.parquet'']"
  let ?g = "get_price ?E \<lparr>ordinal = 739924, micros = 0\<rparr> ''CIPLA,15m,1d'' ''NSE'' 50"
  have pk: "parquet_keys ?batch = ?batch"
    by (simp add: parquet_keys_def endswith_def lower_def lower_char_def)
  have gets: "\<forall>k \<in> set (parquet_keys ?batch). \<exists>b. get_object ?E k = Inr b"
    by simp
  have budget: "files_read (init_state :: string state) + int (length (parquet_keys ?batch)) \<le> 50"
    unfolding pk by (simp add: init_state_def)
  have dec: "List.map_filter (decoded ?E) ?batch
      = [\<lparr>columns = [''close''], records = [[(''close'', Raw ''a.parquet'')]]\<rparr>,
         \<lparr>columns = [''close''], records = [[(''close'', Raw ''b.parquet'')]]\<rparr>,
         \<lparr>columns = [''close''], records = [[(''close'', Raw ''d.parquet'')]]\<rparr>,
         \<lparr>columns = [''close''], records = [[(''close'', Raw ''e.parquet'')]]\<rparr>]"
    by (simp add: List.map_filter_simps decoded_def)
  have bad: "filter (\<lambda>k. decoded ?E k = None) ?batch = [''c.parquet'']"
    by (simp add: decoded_def)
  note inst = decode_errors_recovered [of ?E "\<lparr>ordinal = 739924, micros = 0\<rparr>"
      "''CIPLA,15m,1d''" "''NSE''" 50 _ init_state _ _ ?batch]
  from inst have never: "fst ?g \<noteq> Inl (Unhandled ArrowInvalid)"
    by (rule conjunct1)
  from inst [THEN conjunct2, THEN conjunct2, rule_format, OF conjI [OF gets budget]]
  have loop: "rows (obj_loop ?E 50 ?batch init_state)
         = rows init_state @ List.map_filter (decoded ?E) ?batch"
    "files_read (obj_loop ?E 50 ?batch init_state)
         = files_read (init_state :: string state)
           + int (length (List.map_filter (decoded ?E) ?batch))"
    "printed (obj_loop ?E 50 ?batch init_state)
         = printed (init_state :: string state)
           @ map (\<lambda>k. (k, ArrowInvalid)) (filter (\<lambda>k. decoded ?E k = None) ?batch)"
    unfolding pk by simp_all
  from never loop show ?thesis
    unfolding dec bad Let_def pk
    by (simp add: batch_run init_state_def)
qed

text \<open>
  "On every path" fails on the direct path: \<^verbatim>\<open>get_by_key\<close> calls the decoder at line 136
  outside any handler, so a decode error reaches the caller.
\<close>

theorem get_by_key_decode_error_counterexample:
  "get_by_key
     \<lparr>paginate = (\<lambda>p. LastPage None), get_object = (\<lambda>k. Inr ''not a parquet file''),
      read_table = (\<lambda>b. None), to_timestamp = (\<lambda>v :: unit. None),
      datetime_convertible = (\<lambda>col. True)\<rparr>
     ''processed/corrupt.parquet''
   = Inl (Unhandled ArrowInvalid)"
  by (simp add: get_by_key_def read_parquet_bytes_def)

subsection \<open>The time filter\<close>

text \<open>
  Claim C8 describes the filter that lines 113-117 attempt. The first candidate that is
  a column is chosen (\<open>filter_loop_first_candidate\<close>), and without one all rows are
  returned (\<open>filter_loop_no_candidate\<close>). But the chosen column is converted with
  \<^verbatim>\<open>utc=True\<close>, so it is time-zone aware, while the bounds \<^verbatim>\<open>pd.to_datetime(start)\<close>
  and \<^verbatim>\<open>pd.to_datetime(now)\<close> come from \<^verbatim>\<open>datetime.utcnow()\<close> and are naive: the
  comparison at line 116 raises TypeError (\<open>time_filter_aware\<close>). So a request whose
  assembled table has a candidate column that converts fails, whatever its cells hold,
  and no row is returned; a column that does not convert becomes all \<^verbatim>\<open>NaT\<close> and no
  row is kept either (\<open>time_filter_naive\<close>). Here: one object, one row, a \<open>timestamp\<close>
  column of integers.
\<close>

theorem timestamp_filter_type_error:
  "fst (get_price
     \<lparr>paginate = (\<lambda>p. LastPage (Some [''a.parquet''])),
      get_object = (\<lambda>k. Inr k),
      read_table = (\<lambda>b. Some \<lparr>columns = [''timestamp'', ''close''],
                               records = [[(''timestamp'', Raw (1 :: int)), (''close'', Raw 2)]]\<rparr>),
      to_timestamp = (\<lambda>v. Some v),
      datetime_convertible = (\<lambda>col. True)\<rparr>
     \<lparr>ordinal = 739924, micros = 0\<rparr> ''CIPLA,15m,1d'' ''NSE'' 1)
   = Inl (Unhandled TypeError)"
  by (simp add: get_price_def example_request example_prefixes init_state_def contents_def
      sent_def halted_def endswith_def lower_def lower_char_def read_parquet_bytes_def Let_def
      candidates_def concat_frames_def union_columns_def reindex_def time_filter_aware)

end
